theory Spec2Isabelle
  imports Complex_Main "HOL-Library.Sublist"
begin

section \<open>Grocery aisle product finder: a shallow embedding\<close>

text \<open>
  The service classifies an uploaded photo, looks the label up in a product table and
  renders the answer. Python values are modelled as follows: \<open>str\<close> is \<open>string\<close>
  (characters are the code points 0..255, with the case and the whitespace Python gives
  them),
  \<open>int\<close> is \<open>int\<close>, \<open>float\<close> is an exact \<open>rat\<close> (rounding errors of
  binary floating point are outside the model), an exception is a value of \<open>error\<close>
  on the left of a sum.
\<close>

subsection \<open>Exceptions\<close>

datatype error =
    ValueError string
  | AttributeError
  | KeyError string
  | OSError
  | HTTPException nat string

subsection \<open>Strings\<close>

text \<open>\<open>str.lower()\<close>: the letters A..Z and the capital letters 192..222 of Latin-1
  (215 is the multiplication sign) move 32 places up, every other character stays.\<close>

definition lower_char :: "char \<Rightarrow> char" where
  "lower_char c =
     (let n = (of_char c :: nat) in
      if (65 \<le> n \<and> n \<le> 90) \<or> (192 \<le> n \<and> n \<le> 222 \<and> n \<noteq> 215) then char_of (n + 32) else c)"

definition str_lower :: "string \<Rightarrow> string" where
  "str_lower s = map lower_char s"

text \<open>\<open>str.isspace()\<close> on one character: tab, newline, vertical tab, form feed,
  carriage return, the separators 28..31, the space, next line (133) and the no-break
  space (160).\<close>

definition is_space :: "char \<Rightarrow> bool" where
  "is_space c =
     (let n = (of_char c :: nat) in
      (9 \<le> n \<and> n \<le> 13) \<or> (28 \<le> n \<and> n \<le> 32) \<or> n = 133 \<or> n = 160)"

text \<open>\<open>str.strip()\<close>: whitespace is dropped at both ends.\<close>

definition str_strip :: "string \<Rightarrow> string" where
  "str_strip s = rev (dropWhile is_space (rev (dropWhile is_space s)))"

text \<open>\<open>k in s\<close> on strings: \<open>k\<close> occurs in \<open>s\<close> as a contiguous block.\<close>

primrec str_contains :: "string \<Rightarrow> string \<Rightarrow> bool" where
  "str_contains k [] = (k = [])"
| "str_contains k (c # cs) = (prefix k (c # cs) \<or> str_contains k cs)"

text \<open>\<open>s.startswith(p)\<close>.\<close>

definition startswith :: "string \<Rightarrow> string \<Rightarrow> bool" where
  "startswith s p = (take (length p) s = p)"

subsection \<open>The coarse label of the pretrained classifier (app/models/schemas.py)\<close>

definition banana_keywords :: "string list" where
  "banana_keywords = [''banana'', ''plantain'']"

definition apple_keywords :: "string list" where
  "apple_keywords = [''granny smith'', ''red delicious'', ''golden delicious'', ''apple'']"

text \<open>\<open>any(k in lbl for k in keywords)\<close>.\<close>

definition any_keyword :: "string list \<Rightarrow> string \<Rightarrow> bool" where
  "any_keyword keywords lbl = list_ex (\<lambda>k. str_contains k lbl) keywords"

text \<open>The two loops of \<open>_map_label\<close>: each returns its label at the first name that
  holds one of its keywords, and falls through (\<open>None\<close>) when no name does.\<close>

primrec banana_loop :: "string list \<Rightarrow> string option" where
  "banana_loop [] = None"
| "banana_loop (lbl # rest) =
     (if any_keyword banana_keywords lbl then Some ''banana'' else banana_loop rest)"

primrec apple_loop :: "string list \<Rightarrow> string option" where
  "apple_loop [] = None"
| "apple_loop (lbl # rest) =
     (if any_keyword apple_keywords lbl then Some ''apple'' else apple_loop rest)"

definition map_label :: "string list \<Rightarrow> string" where
  "map_label imagenet_labels =
     (let low = map str_lower imagenet_labels in
      case banana_loop low of
        Some r \<Rightarrow> r
      | None \<Rightarrow> (case apple_loop low of Some r \<Rightarrow> r | None \<Rightarrow> ''neither''))"

text \<open>The claim's reading of \<open>_map_label\<close>: some name, lowercased, contains a keyword
  of the group.\<close>

definition mentions :: "string list \<Rightarrow> string list \<Rightarrow> bool" where
  "mentions keywords names =
     (\<exists>n \<in> set names. \<exists>k \<in> set keywords. sublist k (str_lower n))"

definition map_label_spec :: "string list \<Rightarrow> string" where
  "map_label_spec names =
     (if mentions banana_keywords names then ''banana''
      else if mentions apple_keywords names then ''apple''
      else ''neither'')"

subsection \<open>Images and the placeholder classifier (app/model.py)\<close>

type_synonym rgb = "nat \<times> nat \<times> nat"

type_synonym bytes = string

text \<open>A decoded RGB image: its size and its pixels, row by row.\<close>

record image =
  width :: nat
  height :: nat
  pixels :: "rgb list"

text \<open>\<open>ProductClassifier.predict\<close> of app/model.py, the classifier the vision service
  instantiates: the image is not read.\<close>

definition predict :: "image \<Rightarrow> string \<times> rat" where
  "predict img = (let label = ''banana''; confidence = 95 / 100 in (label, confidence))"

subsection \<open>The vision service (app/services/vision.py)\<close>

text \<open>\<open>load_image\<close>: decoding is PIL's; \<open>decode\<close> stands for it, \<open>None\<close> when PIL raises.\<close>

definition load_image :: "(bytes \<Rightarrow> image option) \<Rightarrow> bytes \<Rightarrow> error + image" where
  "load_image decode image_bytes =
     (case decode image_bytes of
        Some img \<Rightarrow> Inr img
      | None \<Rightarrow> Inl (ValueError ''Could not open image''))"

definition classify_image :: "image \<Rightarrow> string \<times> rat" where
  "classify_image img = predict img"

definition process_bytes_for_single_product ::
  "(bytes \<Rightarrow> image option) \<Rightarrow> bytes \<Rightarrow> string option \<Rightarrow> error + (image \<times> string \<times> rat)" where
  "process_bytes_for_single_product decode file_bytes content_type =
     (case content_type of
        None \<Rightarrow> Inl (ValueError ''Please upload an image file.'')
      | Some ct \<Rightarrow>
          if ct = [] \<or> \<not> startswith ct ''image/''
          then Inl (ValueError ''Please upload an image file.'')
          else (case load_image decode file_bytes of
                  Inl e \<Rightarrow> Inl e
                | Inr img \<Rightarrow>
                    (let (label, confidence) = classify_image img
                     in Inr (img, label, confidence))))"

subsection \<open>The random module\<close>

text \<open>The generator is the sequence of raw integers it will hand out; a draw takes the
  first and leaves the rest, and reduces it into the range asked for. Every sequence is a
  possible run.\<close>

type_synonym rng = "nat \<Rightarrow> int"

definition next_raw :: "rng \<Rightarrow> int \<times> rng" where
  "next_raw g = (g 0, \<lambda>i. g (Suc i))"

text \<open>\<open>random.random()\<close>: a multiple of \<open>2^-53\<close> in \<open>[0, 1)\<close>.\<close>

definition random_unit :: "rng \<Rightarrow> rat \<times> rng" where
  "random_unit g = (let (r, g') = next_raw g in (of_int (r mod 2 ^ 53) / 2 ^ 53, g'))"

text \<open>\<open>random.uniform(a, b)\<close> is \<open>a + (b - a) * random()\<close>.\<close>

definition uniform :: "rat \<Rightarrow> rat \<Rightarrow> rng \<Rightarrow> rat \<times> rng" where
  "uniform a b g = (let (u, g') = random_unit g in (a + (b - a) * u, g'))"

text \<open>\<open>random.randint(a, b)\<close>: a value of \<open>a..b\<close>, and ValueError when the range is
  empty (the message's wording depends on the Python version).\<close>

definition randint :: "int \<Rightarrow> int \<Rightarrow> rng \<Rightarrow> error + (int \<times> rng)" where
  "randint a b g =
     (if b < a then Inl (ValueError ''empty range for randrange()'')
      else (let (r, g') = next_raw g in Inr (a + r mod (b - a + 1), g')))"

text \<open>\<open>round(x, 2)\<close>: to the nearest hundredth, a tie to the even one.\<close>

definition round_half_even :: "rat \<Rightarrow> int" where
  "round_half_even x =
     (let f = \<lfloor>x\<rfloor>; d = x - of_int f in
      if d < 1 / 2 then f else if 1 / 2 < d then f + 1 else if even f then f else f + 1)"

definition round2 :: "rat \<Rightarrow> rat" where
  "round2 x = of_int (round_half_even (x * 100)) / 100"

text \<open>\<open>int(x)\<close> on a float: truncation towards zero.\<close>

definition py_int :: "rat \<Rightarrow> int" where
  "py_int x = (if 0 \<le> x then \<lfloor>x\<rfloor> else \<lceil>x\<rceil>)"

subsection \<open>Simulated detections\<close>

record detection =
  label :: string
  confidence :: rat
  bbox :: "int list"

text \<open>The deduplication loop, on the pair of \<open>seen\<close> and \<open>unique_labels\<close>.\<close>

primrec dedup_loop :: "string list \<Rightarrow> string set \<times> string list \<Rightarrow> string set \<times> string list" where
  "dedup_loop [] st = st"
| "dedup_loop (lbl # rest) st =
     (case st of (seen, unique_labels) \<Rightarrow>
        if lbl \<notin> seen then dedup_loop rest (insert lbl seen, unique_labels @ [lbl])
        else dedup_loop rest (seen, unique_labels))"

text \<open>One round of the detection loop: the confidence, then the four corners, each
  drawn in the source's order. \<open>int(width * 0.5)\<close> and \<open>int(width * 0.15)\<close> are the
  truncated exact products.\<close>

definition one_detection :: "int \<Rightarrow> int \<Rightarrow> string \<Rightarrow> rng \<Rightarrow> error + (detection \<times> rng)" where
  "one_detection w h lbl g0 =
     (let (u, g1) = uniform (55 / 100) (97 / 100) g0; conf = round2 u in
      case randint 0 (max 0 (py_int (of_int w * (5 / 10)))) g1 of
        Inl e \<Rightarrow> Inl e
      | Inr (x1, g2) \<Rightarrow>
      (case randint 0 (max 0 (py_int (of_int h * (5 / 10)))) g2 of
        Inl e \<Rightarrow> Inl e
      | Inr (y1, g3) \<Rightarrow>
      (case randint (x1 + max 10 (py_int (of_int w * (15 / 100)))) w g3 of
        Inl e \<Rightarrow> Inl e
      | Inr (x2, g4) \<Rightarrow>
      (case randint (y1 + max 10 (py_int (of_int h * (15 / 100)))) h g4 of
        Inl e \<Rightarrow> Inl e
      | Inr (y2, g5) \<Rightarrow>
          Inr (\<lparr>label = lbl, confidence = conf, bbox = [x1, y1, x2, y2]\<rparr>, g5)))))"

text \<open>\<open>for i in range(num_detections)\<close>, on the indices still to visit.\<close>

primrec detections_loop ::
  "nat list \<Rightarrow> int \<Rightarrow> int \<Rightarrow> string list \<Rightarrow> detection list \<Rightarrow> rng \<Rightarrow> error + detection list" where
  "detections_loop [] w h unique_labels detections g = Inr detections"
| "detections_loop (i # rest) w h unique_labels detections g =
     (case one_detection w h (unique_labels ! i) g of
        Inl e \<Rightarrow> Inl e
      | Inr (d, g') \<Rightarrow> detections_loop rest w h unique_labels (detections @ [d]) g')"

definition fake_multi_detections :: "image \<Rightarrow> string \<Rightarrow> rng \<Rightarrow> error + detection list" where
  "fake_multi_detections img base_label g =
     (let labels_pool = [base_label, ''banana'', ''apple'', ''cereal'', ''milk''];
          (seen, unique_labels) = dedup_loop labels_pool ({}, []);
          num_detections = min 3 (length unique_labels)
      in detections_loop [0..<num_detections] (int (width img)) (int (height img))
           unique_labels [] g)"

text \<open>The box of a detection lies inside a \<open>w\<close> by \<open>h\<close> image and is not empty.\<close>

definition bbox_inside :: "int \<Rightarrow> int \<Rightarrow> detection \<Rightarrow> bool" where
  "bbox_inside w h d =
     (case bbox d of
        [x1, y1, x2, y2] \<Rightarrow> 0 \<le> x1 \<and> x1 < x2 \<and> x2 \<le> w \<and> 0 \<le> y1 \<and> y1 < y2 \<and> y2 \<le> h
      | _ \<Rightarrow> False)"

text \<open>What is claimed of one detection: its confidence lies in \<open>[0.55, 0.97]\<close> and
  its box lies inside the image.\<close>

definition detection_in_range :: "int \<Rightarrow> int \<Rightarrow> detection \<Rightarrow> bool" where
  "detection_in_range w h d =
     (55 / 100 \<le> detection.confidence d \<and> detection.confidence d \<le> 97 / 100 \<and> bbox_inside w h d)"

subsection \<open>Drawing the detections\<close>

text \<open>Images are objects: the store holds them, an object is known by its index, and a
  new object goes to the end. \<open>ImageDraw\<close> is PIL's: \<open>pil cmd im\<close> is the image a
  drawing command leaves, or the exception it raises. The caption
  \<open>f"{label} {int(conf * 100)}%"\<close> is kept as its two parts.\<close>

type_synonym store = "image list"

datatype draw_cmd =
    Rectangle_outline "int list" rgb nat
  | Rectangle_fill "int list" rgb
  | Text "int \<times> int" "string \<times> int" rgb

type_synonym pil = "draw_cmd \<Rightarrow> image \<Rightarrow> error + image"

text \<open>\<open>image.copy()\<close>.\<close>

definition image_copy :: "nat \<Rightarrow> store \<Rightarrow> nat \<times> store" where
  "image_copy a s = (length s, s @ [s ! a])"

text \<open>A method of \<open>ImageDraw.Draw(annotated)\<close>: it writes into the object it was made for.\<close>

definition draw :: "pil \<Rightarrow> draw_cmd \<Rightarrow> nat \<Rightarrow> store \<Rightarrow> error + store" where
  "draw pil cmd a s = (case pil cmd (s ! a) of Inl e \<Rightarrow> Inl e | Inr im \<Rightarrow> Inr (s[a := im]))"

text \<open>The body of the loop for one detection. The unpacking and the outline may raise;
  what the label's background and caption raise is swallowed.\<close>

definition draw_one :: "pil \<Rightarrow> detection \<Rightarrow> nat \<Rightarrow> store \<Rightarrow> error option \<times> store" where
  "draw_one pil det annotated s =
     (case bbox det of
        [x1, y1, x2, y2] \<Rightarrow>
          (case draw pil (Rectangle_outline [x1, y1, x2, y2] (37, 99, 235) 3) annotated s of
             Inl e \<Rightarrow> (Some e, s)
           | Inr s1 \<Rightarrow>
               (let text = (label det, py_int (detection.confidence det * 100)) in
                case draw pil (Rectangle_fill [x1, y1 - 16, x1 + 110, y1] (37, 99, 235)) annotated s1 of
                  Inl e \<Rightarrow> (None, s1)
                | Inr s2 \<Rightarrow>
                    (case draw pil (Text (x1 + 4, y1 - 14) text (255, 255, 255)) annotated s2 of
                       Inl e \<Rightarrow> (None, s2)
                     | Inr s3 \<Rightarrow> (None, s3))))
      | _ \<Rightarrow> (Some (ValueError ''wrong number of values to unpack''), s))"

primrec draw_loop :: "pil \<Rightarrow> detection list \<Rightarrow> nat \<Rightarrow> store \<Rightarrow> error option \<times> store" where
  "draw_loop pil [] annotated s = (None, s)"
| "draw_loop pil (det # rest) annotated s =
     (case draw_one pil det annotated s of
        (Some e, s') \<Rightarrow> (Some e, s')
      | (None, s') \<Rightarrow> draw_loop pil rest annotated s')"

text \<open>\<open>draw_detections(image, detections)\<close>: the object returned, or the exception, and
  the store it leaves.\<close>

definition draw_detections :: "pil \<Rightarrow> nat \<Rightarrow> detection list \<Rightarrow> store \<Rightarrow> (error + nat) \<times> store" where
  "draw_detections pil img detections s =
     (let (annotated, s0) = image_copy img s in
      case draw_loop pil detections annotated s0 of
        (Some e, s') \<Rightarrow> (Inl e, s')
      | (None, s') \<Rightarrow> (Inr annotated, s'))"

subsection \<open>The product table (app/services/database.py)\<close>

text \<open>A row of \<open>products\<close> in column order: product_name, category, aisle, section,
  price, in_stock. The table is its rows in insertion order. A row of the CSV file is
  the dictionary \<open>csv.DictReader\<close> yields, every value a string.\<close>

type_synonym row = "string \<times> string \<times> string \<times> string \<times> rat \<times> int"

type_synonym table = "row list"

type_synonym csv_row = "string \<rightharpoonup> string"

definition row_name :: "row \<Rightarrow> string" where
  "row_name r = fst r"

text \<open>\<open>product_name TEXT PRIMARY KEY\<close>: no two rows share a name.\<close>

definition primary_key_holds :: "table \<Rightarrow> bool" where
  "primary_key_holds t = distinct (map row_name t)"

text \<open>\<open>INSERT OR REPLACE\<close>: a row with the same key goes, the new row comes.\<close>

definition insert_or_replace :: "row \<Rightarrow> table \<Rightarrow> table" where
  "insert_or_replace r t = filter (\<lambda>r'. row_name r' \<noteq> row_name r) t @ [r]"

primrec executemany :: "row list \<Rightarrow> table \<Rightarrow> table" where
  "executemany [] t = t"
| "executemany (r # rows) t = executemany rows (insert_or_replace r t)"

text \<open>\<open>row[key]\<close> on a CSV row.\<close>

definition csv_get :: "csv_row \<Rightarrow> string \<Rightarrow> error + string" where
  "csv_get row key = (case row key of None \<Rightarrow> Inl (KeyError key) | Some v \<Rightarrow> Inr v)"

text \<open>The body of the seeding loop; \<open>to_float\<close> is Python's \<open>float\<close> on a string,
  \<open>None\<close> when it raises ValueError.\<close>

definition seed_row :: "(string \<Rightarrow> rat option) \<Rightarrow> csv_row \<Rightarrow> error + row" where
  "seed_row to_float row =
     (case csv_get row ''product_name'' of Inl e \<Rightarrow> Inl e | Inr pn \<Rightarrow>
     (let name = str_lower (str_strip pn) in
     (case csv_get row ''category'' of Inl e \<Rightarrow> Inl e | Inr category \<Rightarrow>
     (case csv_get row ''aisle'' of Inl e \<Rightarrow> Inl e | Inr aisle \<Rightarrow>
     (case csv_get row ''section'' of Inl e \<Rightarrow> Inl e | Inr sect \<Rightarrow>
     (case csv_get row ''price'' of Inl e \<Rightarrow> Inl e | Inr p \<Rightarrow>
     (case to_float p of
        None \<Rightarrow> Inl (ValueError ''could not convert string to float'')
      | Some price \<Rightarrow>
     (case csv_get row ''stock'' of Inl e \<Rightarrow> Inl e | Inr st \<Rightarrow>
     (let in_stock = (if str_lower (str_strip st) \<in> set [''true'', ''1'', ''yes''] then 1 else 0)
      in Inr (name, category, aisle, sect, price, in_stock))))))))))"

primrec read_rows :: "(string \<Rightarrow> rat option) \<Rightarrow> csv_row list \<Rightarrow> row list \<Rightarrow> error + row list" where
  "read_rows to_float [] rows = Inr rows"
| "read_rows to_float (row # reader) rows =
     (case seed_row to_float row of
        Inl e \<Rightarrow> Inl e
      | Inr r \<Rightarrow> read_rows to_float reader (rows @ [r]))"

text \<open>\<open>_ensure_schema_and_seed\<close>: \<open>csv\<close> is the file's rows, \<open>None\<close> when the file does
  not exist; \<open>t\<close> is the table the database file holds, empty when it was just created.\<close>

definition ensure_schema_and_seed ::
  "(string \<Rightarrow> rat option) \<Rightarrow> csv_row list option \<Rightarrow> table \<Rightarrow> error + table" where
  "ensure_schema_and_seed to_float csv t =
     (let count = length t in
      case csv of
        None \<Rightarrow> Inr t
      | Some reader \<Rightarrow>
          if count = 0
          then (case read_rows to_float reader [] of
                  Inl e \<Rightarrow> Inl e
                | Inr rows \<Rightarrow> if rows \<noteq> [] then Inr (executemany rows t) else Inr t)
          else Inr t)"

text \<open>The schema \<open>ProductLocation\<close> of app/models/schemas.py (its field \<open>section\<close>
  is \<open>shelf_section\<close> here).\<close>

record ProductLocation =
  product_name :: string
  category :: string
  aisle :: string
  shelf_section :: string
  price :: rat
  in_stock :: bool

text \<open>\<open>lookup\<close>: \<open>fetchone\<close> takes the first row the query selects.\<close>

definition lookup :: "table \<Rightarrow> string \<Rightarrow> ProductLocation option" where
  "lookup t name_arg =
     (let name = str_lower (str_strip name_arg) in
      case find (\<lambda>r. row_name r = name) t of
        None \<Rightarrow> None
      | Some (n, c, a, s, p, i) \<Rightarrow>
          Some \<lparr>product_name = n, category = c, aisle = a, shelf_section = s, price = p,
                in_stock = (i \<noteq> 0)\<rparr>)"

subsection \<open>The prediction endpoints (app/api/routes.py)\<close>

text \<open>The result dictionary. \<open>message\<close> is \<open>None\<close> where the dictionary has no such
  key; \<open>location\<close> and \<open>meta\<close> are \<open>None\<close> where the key holds Python's \<open>None\<close>.\<close>

record location_dict =
  loc_aisle :: string
  loc_section :: string

record meta_dict =
  meta_category :: string
  meta_price :: rat
  meta_in_stock :: bool

record result =
  predicted_label :: string
  confidence :: rat
  found_in_database :: bool
  message :: "string option"
  location :: "location_dict option"
  meta :: "meta_dict option"

text \<open>The log file and what the file system will do to the next attempt to write it.\<close>

record log_fs =
  mkdir_fails :: bool
  open_fails :: bool
  write_fails :: bool
  log_file :: "string list"

text \<open>The \<open>try\<close> block of \<open>_log_request\<close>: \<open>ts\<close> is the time stamp, \<open>fmt3f\<close> the format
  \<open>.3f\<close>. \<open>result.get('location', {})\<close> is the value under the key, which is \<open>None\<close>
  for a label the table does not hold, and \<open>.get\<close> on it raises AttributeError.\<close>

definition log_request_try :: "(rat \<Rightarrow> string) \<Rightarrow> string \<Rightarrow> result \<Rightarrow> log_fs \<Rightarrow> error + log_fs" where
  "log_request_try fmt3f ts result fs =
     (if mkdir_fails fs then Inl OSError
      else if open_fails fs then Inl OSError
      else (case location result of
              None \<Rightarrow> Inl AttributeError
            | Some loc \<Rightarrow>
                (let line = ts @ '' | label='' @ predicted_label result
                       @ '' | conf='' @ fmt3f (confidence result)
                       @ '' | found='' @ (if found_in_database result then ''True'' else ''False'')
                       @ '' | aisle='' @ loc_aisle loc
                       @ '' | section='' @ loc_section loc @ [CHR 0x0A]
                 in if write_fails fs then Inl OSError
                    else Inr (fs\<lparr>log_file := log_file fs @ [line]\<rparr>))))"

text \<open>\<open>_log_request\<close>: \<open>except Exception: pass\<close> around the block.\<close>

definition log_request :: "(rat \<Rightarrow> string) \<Rightarrow> string \<Rightarrow> result \<Rightarrow> log_fs \<Rightarrow> error + log_fs" where
  "log_request fmt3f ts result fs =
     (case log_request_try fmt3f ts result fs of
        Inl e \<Rightarrow> Inr fs
      | Inr fs' \<Rightarrow> Inr fs')"

text \<open>\<open>predict_api\<close>, the JSON endpoint: the dictionary it returns and the log it leaves,
  or the exception it raises (\<open>lbl\<close> is the source's \<open>label\<close>).\<close>

definition predict_api ::
  "(bytes \<Rightarrow> image option) \<Rightarrow> (rat \<Rightarrow> string) \<Rightarrow> string \<Rightarrow> table \<Rightarrow> log_fs
    \<Rightarrow> bytes \<Rightarrow> string option \<Rightarrow> error + (result \<times> log_fs)" where
  "predict_api decode fmt3f ts db fs file_bytes content_type =
     (case process_bytes_for_single_product decode file_bytes content_type of
        Inl (ValueError m) \<Rightarrow> Inl (HTTPException 400 m)
      | Inl e \<Rightarrow> Inl e
      | Inr (img, lbl, confidence_value) \<Rightarrow>
          (let product_info = lookup db lbl;
               result =
                 (case product_info of
                    None \<Rightarrow>
                      \<lparr>predicted_label = lbl, confidence = confidence_value,
                        found_in_database = False,
                        message = Some (''No location info found for '' @ [CHR 0x27] @ lbl
                                        @ [CHR 0x27] @ ''.''),
                        location = None, meta = None\<rparr>
                  | Some p \<Rightarrow>
                      \<lparr>predicted_label = lbl, confidence = confidence_value,
                        found_in_database = True,
                        message = None,
                        location = Some \<lparr>loc_aisle = aisle p, loc_section = shelf_section p\<rparr>,
                        meta = Some \<lparr>meta_category = category p, meta_price = price p,
                                     meta_in_stock = in_stock p\<rparr>\<rparr>)
           in case log_request fmt3f ts result fs of
                Inl e \<Rightarrow> Inl e
              | Inr fs' \<Rightarrow> Inr (result, fs')))"

text \<open>\<open>predict_html\<close> up to its call of \<open>_log_request\<close>: the dictionary the page is
  built from.\<close>

definition predict_html_result ::
  "(bytes \<Rightarrow> image option) \<Rightarrow> (rat \<Rightarrow> string) \<Rightarrow> string \<Rightarrow> table \<Rightarrow> log_fs
    \<Rightarrow> bytes \<Rightarrow> string option \<Rightarrow> error + (result \<times> log_fs)" where
  "predict_html_result decode fmt3f ts db fs file_bytes content_type =
     (case process_bytes_for_single_product decode file_bytes content_type of
        Inl (ValueError m) \<Rightarrow> Inl (HTTPException 400 m)
      | Inl e \<Rightarrow> Inl e
      | Inr (img, lbl, confidence_value) \<Rightarrow>
          (let product_info = lookup db lbl;
               result =
                 (if product_info = None
                  then \<lparr>predicted_label = lbl, confidence = confidence_value,
                         found_in_database = False,
                         message = Some (''No location info found for '' @ [CHR 0x27] @ lbl
                                         @ [CHR 0x27] @ ''.''),
                         location = None, meta = None\<rparr>
                  else \<lparr>predicted_label = lbl, confidence = confidence_value,
                         found_in_database = True,
                         message = None,
                         location = Some \<lparr>loc_aisle = aisle (the product_info),
                                           loc_section = shelf_section (the product_info)\<rparr>,
                         meta = Some \<lparr>meta_category = category (the product_info),
                                      meta_price = price (the product_info),
                                      meta_in_stock = in_stock (the product_info)\<rparr>\<rparr>)
           in case log_request fmt3f ts result fs of
                Inl e \<Rightarrow> Inl e
              | Inr fs' \<Rightarrow> Inr (result, fs')))"

text \<open>\<open>predict_html\<close>: the page. \<open>render\<close> is the HTML template over the dictionary and
  the preview's data URL, \<open>b64encode\<close> is base64.\<close>

definition predict_html ::
  "(result \<Rightarrow> string option \<Rightarrow> string) \<Rightarrow> (bytes \<Rightarrow> string)
    \<Rightarrow> (bytes \<Rightarrow> image option) \<Rightarrow> (rat \<Rightarrow> string) \<Rightarrow> string \<Rightarrow> table \<Rightarrow> log_fs
    \<Rightarrow> bytes \<Rightarrow> string option \<Rightarrow> error + (string \<times> log_fs)" where
  "predict_html render b64encode decode fmt3f ts db fs file_bytes content_type =
     (case predict_html_result decode fmt3f ts db fs file_bytes content_type of
        Inl e \<Rightarrow> Inl e
      | Inr (result, fs') \<Rightarrow>
          (let b64 = b64encode file_bytes;
               mime = (case content_type of
                         None \<Rightarrow> ''image/jpeg''
                       | Some ct \<Rightarrow> if ct = [] then ''image/jpeg'' else ct);
               img_data_url = Some (''data:'' @ mime @ '';base64,'' @ b64)
           in Inr (render result img_data_url, fs')))"

section \<open>Properties\<close>

subsection \<open>Strings\<close>

lemma str_contains_sublist: "str_contains k s = sublist k s"
  by (induction s) (simp_all add: sublist_Cons_right)

lemma any_keyword_iff: "any_keyword ks lbl = (\<exists>k \<in> set ks. sublist k lbl)"
  by (simp add: any_keyword_def list_ex_iff str_contains_sublist)

lemma is_space_lower_char: "is_space (lower_char c) = is_space c"
proof -
  have "of_char (char_of (of_char c + 32 :: nat) :: char) = (of_char c + 32 :: nat)"
    if "(of_char c :: nat) \<le> 222"
    using that by (simp add: of_char_of)
  then show ?thesis
    by (auto simp: is_space_def lower_char_def Let_def)
qed

lemma lower_char_idem: "lower_char (lower_char c) = lower_char c"
proof -
  have "of_char (char_of (of_char c + 32 :: nat) :: char) = (of_char c + 32 :: nat)"
    if "(of_char c :: nat) \<le> 222"
    using that by (simp add: of_char_of)
  then show ?thesis
    by (auto simp: lower_char_def Let_def)
qed

lemma str_lower_idem: "str_lower (str_lower s) = str_lower s"
  by (simp add: str_lower_def lower_char_idem)

lemma str_strip_ends:
  "str_strip s = [] \<or> (\<not> is_space (hd (str_strip s)) \<and> \<not> is_space (last (str_strip s)))"
proof (cases "dropWhile is_space s = []")
  case True
  have "str_strip s = []" unfolding str_strip_def True by simp
  then show ?thesis by simp
next
  case False
  define d where "d = dropWhile is_space s"
  define e where "e = dropWhile is_space (rev d)"
  have d: "d \<noteq> []" "\<not> is_space (hd d)"
    using False hd_dropWhile [of is_space s] by (simp_all add: d_def)
  then have "\<not> is_space (last (rev d))" by (simp add: last_rev)
  moreover have "last (rev d) \<in> set (rev d)" using d(1) by (intro last_in_set) simp
  ultimately have e: "e \<noteq> []" unfolding e_def by (auto simp: dropWhile_eq_Nil_conv)
  then have he: "\<not> is_space (hd e)" unfolding e_def by (rule hd_dropWhile)
  have "rev d = takeWhile is_space (rev d) @ e" by (simp add: e_def)
  then have "last (rev d) = last e" using e by (metis last_appendR)
  then have le: "\<not> is_space (last e)" using d by (simp add: last_rev)
  have "str_strip s = rev e" by (simp add: str_strip_def d_def e_def)
  with e he le show ?thesis by (simp add: hd_rev last_rev)
qed

lemma str_strip_fix:
  assumes "s = [] \<or> (\<not> is_space (hd s) \<and> \<not> is_space (last s))"
  shows "str_strip s = s"
proof (cases "s = []")
  case True
  then show ?thesis by (simp add: str_strip_def)
next
  case False
  with assms have e: "\<not> is_space (hd s)" "\<not> is_space (last s)" by simp_all
  from False e(1) have 1: "dropWhile is_space s = s" by (cases s) simp_all
  from False e(2) have "\<not> is_space (hd (rev s))" by (simp add: hd_rev)
  with False have 2: "dropWhile is_space (rev s) = rev s" by (cases "rev s") simp_all
  show ?thesis by (simp add: str_strip_def 1 2)
qed

lemma normalise_idem:
  "str_lower (str_strip (str_lower (str_strip n))) = str_lower (str_strip n)"
proof -
  let ?t = "str_strip n"
  have "str_lower ?t = [] \<or> (\<not> is_space (hd (str_lower ?t)) \<and> \<not> is_space (last (str_lower ?t)))"
    using str_strip_ends [of n]
    by (auto simp: str_lower_def hd_map last_map is_space_lower_char)
  then have "str_strip (str_lower ?t) = str_lower ?t" by (rule str_strip_fix)
  then show ?thesis by (simp add: str_lower_idem)
qed

subsection \<open>The coarse label\<close>

lemma banana_loop_eq:
  "banana_loop low = (if \<exists>l \<in> set low. any_keyword banana_keywords l then Some ''banana'' else None)"
  by (induction low) simp_all

lemma apple_loop_eq:
  "apple_loop low = (if \<exists>l \<in> set low. any_keyword apple_keywords l then Some ''apple'' else None)"
  by (induction low) simp_all

lemma mentions_low:
  "mentions ks names = (\<exists>l \<in> set (map str_lower names). any_keyword ks l)"
  by (auto simp: mentions_def any_keyword_iff)

text \<open>
  C3: \<open>_map_label\<close> returns one of the three coarse labels: \<open>banana\<close> when some name,
  lowercased, contains a banana keyword, otherwise \<open>apple\<close> when some name contains an
  apple keyword, otherwise \<open>neither\<close>; a banana name wins wherever it stands in the list.
\<close>

theorem map_label_refines_spec:
  "map_label names = map_label_spec names
   \<and> map_label names \<in> {''banana'', ''apple'', ''neither''}
   \<and> ((\<exists>k \<in> set banana_keywords. sublist k (str_lower b)) \<longrightarrow>
        map_label (pre @ b # post) = ''banana'')"
proof -
  have eq: "map_label ns = map_label_spec ns" for ns
    by (simp add: map_label_def map_label_spec_def banana_loop_eq apple_loop_eq mentions_low)
  have range: "map_label_spec names \<in> {''banana'', ''apple'', ''neither''}"
    by (simp add: map_label_spec_def)
  have first: "map_label_spec (pre @ b # post) = ''banana''"
    if "\<exists>k \<in> set banana_keywords. sublist k (str_lower b)"
  proof -
    from that have "mentions banana_keywords (pre @ b # post)"
      unfolding mentions_def by auto
    then show ?thesis by (simp add: map_label_spec_def)
  qed
  from eq range first show ?thesis by simp
qed

theorem map_label_refines_spec_witness:
  "(\<exists>k \<in> set banana_keywords. sublist k (str_lower ''Ripe BANANA''))
   \<and> map_label [''Granny Smith'', ''Ripe BANANA'', ''pineapple''] = ''banana''
   \<and> map_label [''Granny Smith'', ''Ripe BANANA'', ''pineapple'']
       = map_label_spec [''Granny Smith'', ''Ripe BANANA'', ''pineapple'']"
proof -
  have low: "str_lower ''Ripe BANANA'' = ''ripe banana''"
    by code_simp
  have "sublist ''banana'' (''ripe '' @ ''banana'' @ [])"
    by (rule sublist_appendI)
  then have h: "\<exists>k \<in> set banana_keywords. sublist k (str_lower ''Ripe BANANA'')"
    by (simp add: banana_keywords_def low)
  note t = map_label_refines_spec
      [of "[''Granny Smith'', ''Ripe BANANA'', ''pineapple'']" "''Ripe BANANA''"
          "[''Granny Smith'']" "[''pineapple'']", unfolded append.simps]
  from t h show ?thesis by blast
qed

subsection \<open>Simulated detections\<close>

lemma py_int_half: "0 \<le> w \<Longrightarrow> py_int (of_int w * (5 / 10)) = w div 2"
proof -
  assume "0 \<le> w"
  have "(of_int w * (5 / 10) :: rat) = of_int w / of_int 2" by simp
  then have "\<lfloor>of_int w * (5 / 10) :: rat\<rfloor> = w div 2"
    by (simp only: floor_divide_of_int_eq)
  with \<open>0 \<le> w\<close> show ?thesis by (simp add: py_int_def)
qed

lemma py_int_15: "0 \<le> w \<Longrightarrow> py_int (of_int w * (15 / 100)) = (3 * w) div 20"
proof -
  assume "0 \<le> w"
  have "(of_int w * (15 / 100) :: rat) = of_int (3 * w) / of_int 20" by simp
  then have "\<lfloor>of_int w * (15 / 100) :: rat\<rfloor> = (3 * w) div 20"
    by (simp only: floor_divide_of_int_eq)
  with \<open>0 \<le> w\<close> show ?thesis by (simp add: py_int_def)
qed

lemma randint_range:
  assumes "a \<le> b"
  shows "\<exists>r. randint a b g = Inr (r, snd (next_raw g)) \<and> a \<le> r \<and> r \<le> b"
proof -
  define m where "m = g 0 mod (b - a + 1)"
  have pos: "0 < b - a + 1" using assms by arith
  have "0 \<le> m" unfolding m_def using pos by (rule pos_mod_sign)
  moreover have "m < b - a + 1" unfolding m_def using pos by (rule pos_mod_bound)
  ultimately
  have r: "a \<le> a + m" "a + m \<le> b" by arith+
  have "randint a b g = Inr (a + m, snd (next_raw g))"
    using assms by (simp add: randint_def next_raw_def m_def)
  with r show ?thesis by blast
qed

lemma randint_empty: "b < a \<Longrightarrow> randint a b g = Inl (ValueError ''empty range for randrange()'')"
  by (simp add: randint_def)

lemma random_unit_range: "0 \<le> fst (random_unit g) \<and> fst (random_unit g) < 1"
  by (simp add: random_unit_def next_raw_def)

lemma uniform_range:
  assumes "a \<le> b"
  shows "a \<le> fst (uniform a b g) \<and> fst (uniform a b g) \<le> b"
proof -
  let ?u = "fst (random_unit g)"
  have u: "0 \<le> ?u" "?u \<le> 1" using random_unit_range [of g] by simp_all
  have eq: "fst (uniform a b g) = a + (b - a) * ?u"
    by (simp add: uniform_def split_beta)
  from assms u have "0 \<le> (b - a) * ?u" by simp
  moreover from assms u have "(b - a) * ?u \<le> (b - a) * 1"
    by (intro mult_left_mono) simp_all
  ultimately show ?thesis by (simp add: eq)
qed

lemma round_half_even_between:
  assumes "of_int a \<le> x" "x \<le> of_int b"
  shows "a \<le> round_half_even x \<and> round_half_even x \<le> b"
proof -
  have lo: "a \<le> \<lfloor>x\<rfloor>" using assms(1) by (simp add: le_floor_iff)
  have hi: "\<lfloor>x\<rfloor> \<le> b" using assms(2) by (simp add: floor_le_iff) 
  show ?thesis
  proof (cases "x = of_int b")
    case True
    then show ?thesis using lo by (simp add: round_half_even_def)
  next
    case False
    with assms(2) have "x < of_int b" by simp
    then have "\<lfloor>x\<rfloor> < b" by (simp add: floor_less_iff)
    with lo show ?thesis by (auto simp: round_half_even_def Let_def)
  qed
qed

lemma round2_between:
  assumes "55 / 100 \<le> x" "x \<le> 97 / 100"
  shows "55 / 100 \<le> round2 x \<and> round2 x \<le> 97 / 100"
proof -
  from assms have "of_int 55 \<le> x * 100" "x * 100 \<le> of_int 97" by simp_all
  then have "55 \<le> round_half_even (x * 100) \<and> round_half_even (x * 100) \<le> 97"
    by (rule round_half_even_between)
  then have "(55::rat) \<le> of_int (round_half_even (x * 100)) \<and> of_int (round_half_even (x * 100)) \<le> (97::rat)"
    by (metis of_int_le_iff of_int_numeral)
  then show ?thesis by (simp add: round2_def)
qed

lemma one_detection_ok:
  assumes w: "19 \<le> w" and h: "19 \<le> h"
  shows "\<exists>d g'. one_detection w h lbl g = Inr (d, g') \<and> label d = lbl
           \<and> 55 / 100 \<le> detection.confidence d \<and> detection.confidence d \<le> 97 / 100
           \<and> bbox_inside w h d"
proof -
  obtain u g1 where ug: "uniform (55 / 100) (97 / 100) g = (u, g1)" by (cases "uniform (55 / 100) (97 / 100) g")
  have "55 / 100 \<le> fst (uniform (55 / 100) (97 / 100) g) \<and> fst (uniform (55 / 100) (97 / 100) g) \<le> 97 / 100"
    by (rule uniform_range) simp
  with ug have ub: "55 / 100 \<le> u" "u \<le> 97 / 100" by simp_all
  then have cb: "55 / 100 \<le> round2 u \<and> round2 u \<le> 97 / 100" by (rule round2_between)
  have hw: "py_int (of_int w * (5 / 10)) = w div 2" "py_int (of_int w * (15 / 100)) = (3 * w) div 20"
    by (rule py_int_half, use w in arith) (rule py_int_15, use w in arith)
  have hh: "py_int (of_int h * (5 / 10)) = h div 2" "py_int (of_int h * (15 / 100)) = (3 * h) div 20"
    by (rule py_int_half, use h in arith) (rule py_int_15, use h in arith)
  obtain x1 where x1: "randint 0 (max 0 (w div 2)) g1 = Inr (x1, snd (next_raw g1))" "0 \<le> x1" "x1 \<le> max 0 (w div 2)"
    using randint_range [of 0 "max 0 (w div 2)" g1] by auto
  obtain y1 where y1: "randint 0 (max 0 (h div 2)) (snd (next_raw g1)) = Inr (y1, snd (next_raw (snd (next_raw g1))))"
      "0 \<le> y1" "y1 \<le> max 0 (h div 2)"
    using randint_range [of 0 "max 0 (h div 2)" "snd (next_raw g1)"] by auto
  let ?g3 = "snd (next_raw (snd (next_raw g1)))"
  have rx: "x1 + max 10 ((3 * w) div 20) \<le> w" using w x1 by simp
  have ry: "y1 + max 10 ((3 * h) div 20) \<le> h" using h y1 by simp
  obtain x2 where x2: "randint (x1 + max 10 ((3 * w) div 20)) w ?g3 = Inr (x2, snd (next_raw ?g3))"
      "x1 + max 10 ((3 * w) div 20) \<le> x2" "x2 \<le> w"
    using randint_range [OF rx, of ?g3] by auto
  let ?g4 = "snd (next_raw ?g3)"
  obtain y2 where y2: "randint (y1 + max 10 ((3 * h) div 20)) h ?g4 = Inr (y2, snd (next_raw ?g4))"
      "y1 + max 10 ((3 * h) div 20) \<le> y2" "y2 \<le> h"
    using randint_range [OF ry, of ?g4] by auto
  have "one_detection w h lbl g
          = Inr (\<lparr>label = lbl, confidence = round2 u, bbox = [x1, y1, x2, y2]\<rparr>, snd (next_raw ?g4))"
    by (simp only: one_detection_def ug hw hh x1(1) y1(1) x2(1) y2(1) Let_def prod.case sum.case)
  moreover have "bbox_inside w h \<lparr>label = lbl, confidence = round2 u, bbox = [x1, y1, x2, y2]\<rparr>"
  proof -
    have "x1 < x2" using x2(2) by arith
    moreover have "y1 < y2" using y2(2) by arith
    ultimately show ?thesis using x1(2) y1(2) x2(3) y2(3) by (simp add: bbox_inside_def)
  qed
  ultimately show ?thesis using cb by simp
qed


lemma detections_loop_ok:
  assumes w: "19 \<le> w" and h: "19 \<le> h"
  shows "\<exists>ds. detections_loop idx w h ul acc g = Inr (acc @ ds)
           \<and> map label ds = map (\<lambda>i. ul ! i) idx
           \<and> (\<forall>d \<in> set ds. detection_in_range w h d)"
proof (induction idx arbitrary: acc g)
  case Nil
  show ?case by simp
next
  case (Cons i idx)
  obtain d g' where d: "one_detection w h (ul ! i) g = Inr (d, g')" "label d = ul ! i" "detection_in_range w h d"
    using one_detection_ok [OF w h, of "ul ! i" g] by (auto simp: detection_in_range_def)
  obtain ds where ds: "detections_loop idx w h ul (acc @ [d]) g' = Inr ((acc @ [d]) @ ds)"
      "map label ds = map (\<lambda>i. ul ! i) idx" "\<forall>d \<in> set ds. detection_in_range w h d"
    using Cons.IH [of "acc @ [d]" g'] by blast
  have "detections_loop (i # idx) w h ul acc g = Inr (acc @ (d # ds))"
    by (simp add: d(1) ds(1))
  moreover have "map label (d # ds) = map (\<lambda>i. ul ! i) (i # idx)" by (simp add: d(2) ds(2))
  moreover have "\<forall>x \<in> set (d # ds). detection_in_range w h x" using d(3) ds(3) by simp
  ultimately show ?case by blast
qed

lemma unique_labels_pool:
  "\<exists>seen ul. dedup_loop [base, ''banana'', ''apple'', ''cereal'', ''milk''] ({}, []) = (seen, ul)
      \<and> 3 \<le> length ul \<and> ul ! 0 = base"
  by (auto simp: nth_append)

lemma py_int_half_norm: "0 \<le> w \<Longrightarrow> py_int (of_int w / 2) = w div 2"
  using py_int_half [of w] by simp

lemma py_int_15_norm: "0 \<le> w \<Longrightarrow> py_int (of_int w * 3 / 20) = (3 * w) div 20"
  using py_int_15 [of w] by simp

lemma one_detection_fails:
  assumes "0 \<le> w" "0 \<le> h"
    and "w < g (Suc 0) mod (w div 2 + 1) + max 10 (3 * w div 20)
         \<or> h < g (Suc (Suc 0)) mod (h div 2 + 1) + max 10 (3 * h div 20)"
  shows "one_detection w h lbl g = Inl (ValueError ''empty range for randrange()'')"
proof -
  have m: "max 0 (w div 2) = w div 2" "max 0 (h div 2) = h div 2"
    using assms(1,2) by simp_all
  show ?thesis
    using assms
    by (auto simp: one_detection_def uniform_def random_unit_def randint_def next_raw_def
        Let_def split_beta py_int_half_norm py_int_15_norm m)
qed

lemma detections_loop_first_fails:
  "one_detection w h (ul ! i) g = Inl e \<Longrightarrow> detections_loop (i # rest) w h ul acc g = Inl e"
  by simp

lemma fake_multi_detections_unfold:
  "\<exists>ul. ul ! 0 = base \<and>
     fake_multi_detections img base g
       = detections_loop [0, 1, 2] (int (width img)) (int (height img)) ul [] g"
proof -
  obtain seen ul where u: "dedup_loop [base, ''banana'', ''apple'', ''cereal'', ''milk''] ({}, []) = (seen, ul)"
      "3 \<le> length ul" "ul ! 0 = base"
    using unique_labels_pool [of base] by blast
  have "[0..<3] = [0, 1, 2::nat]" by (simp add: upt_rec)
  with u show ?thesis
    by (auto simp: fake_multi_detections_def min_def)
qed

lemma fake_multi_detections_tiny:
  assumes "width img < 10 \<or> height img < 10"
  shows "fake_multi_detections img base g = Inl (ValueError ''empty range for randrange()'')"
proof -
  obtain ul where u: "fake_multi_detections img base g
       = detections_loop [0, 1, 2] (int (width img)) (int (height img)) ul [] g"
    using fake_multi_detections_unfold by blast
  let ?w = "int (width img)" and ?h = "int (height img)"
  have x: "0 \<le> g (Suc 0) mod (?w div 2 + 1)" by (rule pos_mod_sign) simp
  have y: "0 \<le> g (Suc (Suc 0)) mod (?h div 2 + 1)" by (rule pos_mod_sign) simp
  have "?w < g (Suc 0) mod (?w div 2 + 1) + max 10 (3 * ?w div 20)
         \<or> ?h < g (Suc (Suc 0)) mod (?h div 2 + 1) + max 10 (3 * ?h div 20)"
    using assms x y by arith
  then have "one_detection ?w ?h (ul ! 0) g = Inl (ValueError ''empty range for randrange()'')"
    by (intro one_detection_fails) simp_all
  then show ?thesis unfolding u by (rule detections_loop_first_fails)
qed

lemma fake_multi_detections_small:
  assumes "width img < 19 \<or> height img < 19"
  shows "fake_multi_detections img base (\<lambda>i. if i = Suc 0 then int (width img) div 2 else int (height img) div 2)
           = Inl (ValueError ''empty range for randrange()'')"
proof -
  let ?g = "\<lambda>i. if i = Suc 0 then int (width img) div 2 else int (height img) div 2"
  obtain ul where u: "fake_multi_detections img base ?g
       = detections_loop [0, 1, 2] (int (width img)) (int (height img)) ul [] ?g"
    using fake_multi_detections_unfold by blast
  let ?w = "int (width img)" and ?h = "int (height img)"
  have x: "?g (Suc 0) mod (?w div 2 + 1) = ?w div 2" by simp
  have y: "?g (Suc (Suc 0)) mod (?h div 2 + 1) = ?h div 2" by simp
  have "?w < ?w div 2 + max 10 (3 * ?w div 20) \<or> ?h < ?h div 2 + max 10 (3 * ?h div 20)"
    using assms by arith
  then have "?w < ?g (Suc 0) mod (?w div 2 + 1) + max 10 (3 * ?w div 20)
         \<or> ?h < ?g (Suc (Suc 0)) mod (?h div 2 + 1) + max 10 (3 * ?h div 20)"
    unfolding x y .
  then have "one_detection ?w ?h (ul ! 0) ?g = Inl (ValueError ''empty range for randrange()'')"
    by (intro one_detection_fails) simp_all
  then show ?thesis unfolding u by (rule detections_loop_first_fails)
qed

lemma fake_multi_detections_total:
  assumes "19 \<le> width img" "19 \<le> height img"
  shows "\<exists>ds. fake_multi_detections img base g = Inr ds \<and> length ds = 3 \<and> label (ds ! 0) = base
           \<and> (\<forall>d \<in> set ds. detection_in_range (int (width img)) (int (height img)) d)"
proof -
  obtain ul where u: "ul ! 0 = base" "fake_multi_detections img base g
       = detections_loop [0, 1, 2] (int (width img)) (int (height img)) ul [] g"
    using fake_multi_detections_unfold by blast
  have w: "19 \<le> int (width img)" and h: "19 \<le> int (height img)" using assms by simp_all
  obtain ds where ds: "detections_loop [0, 1, 2] (int (width img)) (int (height img)) ul [] g = Inr ([] @ ds)"
      "map label ds = map (\<lambda>i. ul ! i) [0, 1, 2]"
      "\<forall>d \<in> set ds. detection_in_range (int (width img)) (int (height img)) d"
    using detections_loop_ok [OF w h, of "[0, 1, 2]" ul "[]" g] by blast
  from ds(2) have "length (map label ds) = 3" by simp
  then have l: "length ds = 3" by simp
  from ds(2) l have "label (ds ! 0) = ul ! 0"
    by (metis length_map nth_Cons_0 nth_map zero_less_numeral)
  with u ds l show ?thesis by simp
qed

text \<open>
  C2: on an image of at least 19 by 19 pixels every range handed to \<open>randint\<close> is
  non-empty whatever was drawn before, and then, for every base label and every run of
  the generator, \<open>fake_multi_detections\<close> returns exactly 3 detections, the first
  labelled with the base label, every confidence in \<open>[0.55, 0.97]\<close> and every box
  with \<open>0 \<le> x1 < x2 \<le> width\<close> and \<open>0 \<le> y1 < y2 \<le> height\<close>.
\<close>

theorem fake_multi_detections_three_in_range:
  assumes "19 \<le> width img" and "19 \<le> height img"
  shows "\<exists>ds. fake_multi_detections img base_label g = Inr ds
           \<and> length ds = 3
           \<and> label (ds ! 0) = base_label
           \<and> (\<forall>d \<in> set ds. 55 / 100 \<le> detection.confidence d
                  \<and> detection.confidence d \<le> 97 / 100
                  \<and> bbox_inside (int (width img)) (int (height img)) d)"
  using fake_multi_detections_total [OF assms, of base_label g]
  by (simp add: detection_in_range_def)

theorem fake_multi_detections_three_in_range_witness:
  "(19::nat) \<le> width \<lparr>width = 640, height = 480, pixels = []\<rparr>
   \<and> (19::nat) \<le> height \<lparr>width = 640, height = 480, pixels = []\<rparr>
   \<and> (\<exists>ds. fake_multi_detections \<lparr>width = 640, height = 480, pixels = []\<rparr> ''apple''
               (\<lambda>i. 7 * int i + 123456789) = Inr ds
          \<and> length ds = 3 \<and> label (ds ! 0) = ''apple'')"
proof -
  have w: "19 \<le> width \<lparr>width = 640, height = 480, pixels = []\<rparr>" by simp
  have h: "19 \<le> height \<lparr>width = 640, height = 480, pixels = []\<rparr>" by simp
  from fake_multi_detections_three_in_range [OF w h, of "''apple''" "\<lambda>i. 7 * int i + 123456789"]
  have "\<exists>ds. fake_multi_detections \<lparr>width = 640, height = 480, pixels = []\<rparr> ''apple''
               (\<lambda>i. 7 * int i + 123456789) = Inr ds
          \<and> length ds = 3 \<and> label (ds ! 0) = ''apple''"
    by blast
  with w h show ?thesis by blast
qed

text \<open>
  C8: small decodable images make \<open>fake_multi_detections\<close> raise ValueError from
  \<open>randint\<close>. Below 10 pixels of width or height every run raises; some run raises
  exactly when the width or the height is below 19, so the function is total only from
  19 by 19 pixels on.
\<close>

theorem fake_multi_detections_raises_when_small:
  "((width img < 10 \<or> height img < 10) \<longrightarrow>
      fake_multi_detections img base_label g = Inl (ValueError ''empty range for randrange()''))
   \<and> ((\<exists>g'. fake_multi_detections img base_label g' = Inl (ValueError ''empty range for randrange()''))
        \<longleftrightarrow> (width img < 19 \<or> height img < 19))"
proof (intro conjI impI iffI)
  assume "width img < 10 \<or> height img < 10"
  then show "fake_multi_detections img base_label g = Inl (ValueError ''empty range for randrange()'')"
    by (rule fake_multi_detections_tiny)
next
  assume "width img < 19 \<or> height img < 19"
  then show "\<exists>g'. fake_multi_detections img base_label g' = Inl (ValueError ''empty range for randrange()'')"
    using fake_multi_detections_small by blast
next
  assume raises: "\<exists>g'. fake_multi_detections img base_label g' = Inl (ValueError ''empty range for randrange()'')"
  show "width img < 19 \<or> height img < 19"
  proof (rule ccontr)
    assume "\<not> (width img < 19 \<or> height img < 19)"
    then have "19 \<le> width img" "19 \<le> height img" by simp_all
    then have total: "\<exists>ds. fake_multi_detections img base_label g' = Inr ds" for g'
      using fake_multi_detections_total [of img base_label g'] by blast
    from raises obtain g' where
      "fake_multi_detections img base_label g' = Inl (ValueError ''empty range for randrange()'')"
      by blast
    with total [of g'] show False by simp
  qed
qed

theorem fake_multi_detections_raises_when_small_witness:
  "width \<lparr>width = 5, height = 480, pixels = []\<rparr> < 10
   \<and> fake_multi_detections \<lparr>width = 5, height = 480, pixels = []\<rparr> ''apple''
        (\<lambda>i. 7 * int i + 123456789) = Inl (ValueError ''empty range for randrange()'')"
  using fake_multi_detections_raises_when_small
    [of "\<lparr>width = 5, height = 480, pixels = []\<rparr>" "''apple''" "\<lambda>i. 7 * int i + 123456789"]
  by simp

subsection \<open>The product table\<close>

lemma lookup_None_find:
  "lookup t n = None \<longleftrightarrow> find (\<lambda>r. row_name r = str_lower (str_strip n)) t = None"
  by (simp add: lookup_def Let_def split: option.splits prod.splits)

lemma find_name_None_iff:
  "find (\<lambda>r. row_name r = k) t = None \<longleftrightarrow> k \<notin> row_name ` set t"
  by (induction t) auto

lemma lookup_None_iff:
  "lookup t n = None \<longleftrightarrow> str_lower (str_strip n) \<notin> row_name ` set t"
  by (simp only: lookup_None_find find_name_None_iff)

lemma find_row_name:
  "find (\<lambda>r. row_name r = k) t = Some r \<Longrightarrow> r \<in> set t \<and> row_name r = k"
  by (induction t) (auto split: if_splits)

lemma filter_key_at_most_one:
  "primary_key_holds t \<Longrightarrow> length (filter (\<lambda>r. row_name r = k) t) \<le> 1"
  unfolding primary_key_holds_def
  by (induction t) (auto simp: filter_empty_conv image_iff)

lemma filter_key_find:
  "primary_key_holds t \<Longrightarrow> find (\<lambda>r. row_name r = k) t = Some r
     \<Longrightarrow> filter (\<lambda>r. row_name r = k) t = [r]"
  unfolding primary_key_holds_def
  by (induction t) (auto simp: filter_empty_conv image_iff split: if_splits)

lemma primary_key_insert_or_replace:
  "primary_key_holds t \<Longrightarrow> primary_key_holds (insert_or_replace r t)"
  by (auto simp: primary_key_holds_def insert_or_replace_def distinct_map_filter)

lemma primary_key_executemany:
  "primary_key_holds t \<Longrightarrow> primary_key_holds (executemany rows t)"
  by (induction rows arbitrary: t) (simp_all add: primary_key_insert_or_replace)

lemma primary_key_seeded:
  "primary_key_holds t \<Longrightarrow> ensure_schema_and_seed to_float csv t = Inr t' \<Longrightarrow> primary_key_holds t'"
  by (auto simp: ensure_schema_and_seed_def Let_def primary_key_executemany
      split: option.splits if_splits sum.splits)

lemma names_insert_or_replace:
  "row_name ` set (insert_or_replace r t) = insert (row_name r) (row_name ` set t)"
  by (auto simp: insert_or_replace_def image_iff)

lemma names_executemany:
  "row_name ` set (executemany rows t) = row_name ` set rows \<union> row_name ` set t"
  by (induction rows arbitrary: t) (auto simp: names_insert_or_replace)

lemma seed_row_name:
  "seed_row to_float row = Inr r \<Longrightarrow> row ''product_name'' = Some pn
     \<Longrightarrow> row_name r = str_lower (str_strip pn)"
  by (auto simp: seed_row_def csv_get_def row_name_def Let_def split: option.splits sum.splits if_splits)

lemma read_rows_keeps:
  "read_rows to_float reader acc = Inr rows \<Longrightarrow> set acc \<subseteq> set rows"
proof (induction reader arbitrary: acc)
  case Nil
  then show ?case by simp
next
  case (Cons a reader)
  from Cons.prems obtain r where "read_rows to_float reader (acc @ [r]) = Inr rows"
    by (auto split: sum.splits)
  from Cons.IH [OF this] show ?case by simp
qed

lemma read_rows_names:
  "read_rows to_float reader acc = Inr rows \<Longrightarrow> row \<in> set reader
     \<Longrightarrow> row ''product_name'' = Some pn
     \<Longrightarrow> str_lower (str_strip pn) \<in> row_name ` set rows"
proof (induction reader arbitrary: acc)
  case Nil
  then show ?case by simp
next
  case (Cons a reader)
  from Cons.prems(1) obtain r where r: "seed_row to_float a = Inr r"
      "read_rows to_float reader (acc @ [r]) = Inr rows"
    by (auto split: sum.splits)
  show ?case
  proof (cases "row = a")
    case True
    with r(1) Cons.prems(3) have "row_name r = str_lower (str_strip pn)" by (simp add: seed_row_name)
    moreover from read_rows_keeps [OF r(2)] have "r \<in> set rows" by auto
    ultimately show ?thesis by force
  next
    case False
    with Cons.prems(2) have "row \<in> set reader" by simp
    from Cons.IH [OF r(2) this Cons.prems(3)] show ?thesis .
  qed
qed


lemma lookup_Some_row:
  assumes "lookup t n = Some loc"
  shows "\<exists>c a s p i. find (\<lambda>r. row_name r = str_lower (str_strip n)) t
                         = Some (str_lower (str_strip n), c, a, s, p, i)
           \<and> loc = \<lparr>product_name = str_lower (str_strip n), category = c, aisle = a,
                    shelf_section = s, price = p, in_stock = (i \<noteq> 0)\<rparr>"
proof -
  from assms obtain k c a s p i where
    f: "find (\<lambda>r. row_name r = str_lower (str_strip n)) t = Some (k, c, a, s, p, i)"
    and loc: "loc = \<lparr>product_name = k, category = c, aisle = a,
                    shelf_section = s, price = p, in_stock = (i \<noteq> 0)\<rparr>"
    by (auto simp: lookup_def Let_def split: option.splits prod.splits)
  from find_row_name [OF f] have "k = str_lower (str_strip n)" by (simp add: row_name_def)
  with f loc show ?thesis by blast
qed

text \<open>
  C6: \<open>lookup\<close> returns \<open>None\<close> exactly when no row of the table carries the
  normalised name, and otherwise the one \<open>ProductLocation\<close> built from the row of that
  name (its category, aisle, section, price and stock status); under the primary key at
  most one row matches a name.
\<close>

theorem lookup_at_most_one_record:
  assumes "primary_key_holds t"
  shows "(lookup t n = None \<longleftrightarrow> (\<forall>r \<in> set t. row_name r \<noteq> str_lower (str_strip n)))
       \<and> length (filter (\<lambda>r. row_name r = str_lower (str_strip n)) t) \<le> 1
       \<and> (\<forall>loc. lookup t n = Some loc \<longrightarrow>
            (\<exists>c a s p i.
               filter (\<lambda>r. row_name r = str_lower (str_strip n)) t
                 = [(str_lower (str_strip n), c, a, s, p, i)]
               \<and> loc = \<lparr>product_name = str_lower (str_strip n), category = c, aisle = a,
                        shelf_section = s, price = p, in_stock = (i \<noteq> 0)\<rparr>))"
proof (intro conjI allI impI)
  show "lookup t n = None \<longleftrightarrow> (\<forall>r \<in> set t. row_name r \<noteq> str_lower (str_strip n))"
    by (simp only: lookup_None_find find_None_iff) blast
next
  show "length (filter (\<lambda>r. row_name r = str_lower (str_strip n)) t) \<le> 1"
    using assms by (rule filter_key_at_most_one)
next
  fix loc
  assume "lookup t n = Some loc"
  then obtain c a s p i where
    f: "find (\<lambda>r. row_name r = str_lower (str_strip n)) t = Some (str_lower (str_strip n), c, a, s, p, i)"
    and loc: "loc = \<lparr>product_name = str_lower (str_strip n), category = c, aisle = a,
                    shelf_section = s, price = p, in_stock = (i \<noteq> 0)\<rparr>"
    using lookup_Some_row by blast
  from filter_key_find [OF assms f] loc
  show "\<exists>c a s p i.
               filter (\<lambda>r. row_name r = str_lower (str_strip n)) t
                 = [(str_lower (str_strip n), c, a, s, p, i)]
               \<and> loc = \<lparr>product_name = str_lower (str_strip n), category = c, aisle = a,
                        shelf_section = s, price = p, in_stock = (i \<noteq> 0)\<rparr>"
    by blast
qed

theorem lookup_at_most_one_record_witness:
  "primary_key_holds [(''banana'', ''Produce'', ''1'', ''A'', 1 / 4, 1), (''apple'', ''Produce'', ''1'', ''B'', 1 / 2, 0)]
   \<and> lookup [(''banana'', ''Produce'', ''1'', ''A'', 1 / 4, 1), (''apple'', ''Produce'', ''1'', ''B'', 1 / 2, 0)] ''  Apple ''
       = Some \<lparr>product_name = ''apple'', category = ''Produce'', aisle = ''1'', shelf_section = ''B'',
                price = 1 / 2, in_stock = False\<rparr>
   \<and> lookup [(''banana'', ''Produce'', ''1'', ''A'', 1 / 4, 1), (''apple'', ''Produce'', ''1'', ''B'', 1 / 2, 0)] ''cereal'' = None
   \<and> length (filter (\<lambda>r. row_name r = str_lower (str_strip ''  Apple ''))
        [(''banana'', ''Produce'', ''1'', ''A'', 1 / 4, 1), (''apple'', ''Produce'', ''1'', ''B'', 1 / 2, 0)]) \<le> 1"
proof -
  let ?t = "[(''banana'', ''Produce'', ''1'', ''A'', 1 / 4, 1), (''apple'', ''Produce'', ''1'', ''B'', 1 / 2, 0)] :: table"
  have pk: "primary_key_holds ?t" by code_simp
  have a: "lookup ?t ''  Apple ''
       = Some \<lparr>product_name = ''apple'', category = ''Produce'', aisle = ''1'', shelf_section = ''B'',
                price = 1 / 2, in_stock = False\<rparr>"
    by code_simp
  have c: "lookup ?t ''cereal'' = None" by code_simp
  from lookup_at_most_one_record [OF pk, of "''  Apple ''"]
  have "length (filter (\<lambda>r. row_name r = str_lower (str_strip ''  Apple '')) ?t) \<le> 1"
    by blast
  with pk a c show ?thesis by blast
qed

text \<open>
  C9: \<open>lookup\<close> does not see letter case or surrounding whitespace,
  \<open>lookup(n) = lookup(n.strip().lower())\<close>; and after the table was seeded from the
  CSV file, every product of the file is found under any spelling of its name that
  strips and lowercases to the same string.
\<close>

theorem lookup_normalises_name:
  "lookup t n = lookup t (str_lower (str_strip n))
   \<and> (ensure_schema_and_seed to_float (Some reader) [] = Inr t' \<longrightarrow> row \<in> set reader \<longrightarrow>
        row ''product_name'' = Some pn \<longrightarrow> str_lower (str_strip q) = str_lower (str_strip pn) \<longrightarrow>
        (\<exists>loc. lookup t' q = Some loc \<and> product_name loc = str_lower (str_strip pn)))"
proof (intro conjI impI)
  show "lookup t n = lookup t (str_lower (str_strip n))"
    by (simp add: lookup_def normalise_idem)
next
  assume seed: "ensure_schema_and_seed to_float (Some reader) [] = Inr t'"
    and row: "row \<in> set reader" "row ''product_name'' = Some pn"
    and q: "str_lower (str_strip q) = str_lower (str_strip pn)"
  from seed obtain rows where rows: "read_rows to_float reader [] = Inr rows"
      "t' = (if rows \<noteq> [] then executemany rows [] else [])"
    by (auto simp: ensure_schema_and_seed_def split: sum.splits if_splits)
  from read_rows_names [OF rows(1) row] have inn: "str_lower (str_strip pn) \<in> row_name ` set rows" .
  then have "rows \<noteq> []" by auto
  with rows(2) have "row_name ` set t' = row_name ` set rows" by (simp add: names_executemany)
  with inn q have "lookup t' q \<noteq> None" by (simp add: lookup_None_iff)
  then obtain loc where loc: "lookup t' q = Some loc" by auto
  from lookup_Some_row [OF loc] q have "product_name loc = str_lower (str_strip pn)" by auto
  with loc show "\<exists>loc. lookup t' q = Some loc \<and> product_name loc = str_lower (str_strip pn)" by blast
qed


theorem lookup_normalises_name_witness:
  "ensure_schema_and_seed (\<lambda>s. if s = ''0.25'' then Some (1 / 4) else None)
      (Some [[''product_name'' \<mapsto> ''  Banana '', ''category'' \<mapsto> ''Produce'', ''aisle'' \<mapsto> ''1'',
              ''section'' \<mapsto> ''A'', ''price'' \<mapsto> ''0.25'', ''stock'' \<mapsto> ''Yes'']]) []
     = Inr [(''banana'', ''Produce'', ''1'', ''A'', 1 / 4, 1)]
   \<and> lookup [(''banana'', ''Produce'', ''1'', ''A'', 1 / 4, 1)] ''BANANA  ''
       = lookup [(''banana'', ''Produce'', ''1'', ''A'', 1 / 4, 1)] (str_lower (str_strip ''BANANA  ''))
   \<and> (\<exists>loc. lookup [(''banana'', ''Produce'', ''1'', ''A'', 1 / 4, 1)] ''BANANA  '' = Some loc
          \<and> product_name loc = str_lower (str_strip ''  Banana ''))"
proof -
  let ?tf = "\<lambda>s. if s = ''0.25'' then Some (1 / 4 :: rat) else None"
  let ?row = "[''product_name'' \<mapsto> ''  Banana '', ''category'' \<mapsto> ''Produce'', ''aisle'' \<mapsto> ''1'',
              ''section'' \<mapsto> ''A'', ''price'' \<mapsto> ''0.25'', ''stock'' \<mapsto> ''Yes'']"
  let ?t = "[(''banana'', ''Produce'', ''1'', ''A'', 1 / 4, 1)] :: table"
  have seed: "ensure_schema_and_seed ?tf (Some [?row]) [] = Inr ?t"
    by code_simp
  have row: "?row \<in> set [?row]" by simp
  have pn: "?row ''product_name'' = Some ''  Banana ''" by simp
  have q: "str_lower (str_strip ''BANANA  '') = str_lower (str_strip ''  Banana '')" by code_simp
  note t = lookup_normalises_name [of ?t "''BANANA  ''" ?tf "[?row]" ?t ?row "''  Banana ''" "''BANANA  ''"]
  from t seed row pn q show ?thesis by blast
qed

subsection \<open>Drawing the detections\<close>

lemma draw_keeps:
  assumes "draw pil cmd b s = Inr s'"
  shows "length s' = length s \<and> (\<forall>a. a \<noteq> b \<longrightarrow> s' ! a = s ! a)"
  using assms by (auto simp: draw_def split: sum.splits)

lemma draw_one_keeps:
  assumes "draw_one pil det b s = (r, s')"
  shows "length s' = length s \<and> (\<forall>a. a \<noteq> b \<longrightarrow> s' ! a = s ! a)"
proof (cases "\<exists>x1 y1 x2 y2. bbox det = [x1, y1, x2, y2]")
  case False
  then have "draw_one pil det b s = (Some (ValueError ''wrong number of values to unpack''), s)"
    by (auto simp: draw_one_def split: list.splits)
  with assms show ?thesis by simp
next
  case True
  then obtain x1 y1 x2 y2 where b: "bbox det = [x1, y1, x2, y2]" by blast
  show ?thesis
  proof (cases "draw pil (Rectangle_outline [x1, y1, x2, y2] (37, 99, 235) 3) b s")
    case (Inl e)
    with assms b show ?thesis by (simp add: draw_one_def)
  next
    case (Inr s1)
    note k1 = draw_keeps [OF Inr]
    show ?thesis
    proof (cases "draw pil (Rectangle_fill [x1, y1 - 16, x1 + 110, y1] (37, 99, 235)) b s1")
      case (Inl e)
      with assms b Inr k1 show ?thesis by (simp add: draw_one_def)
    next
      case s2: (Inr s2)
      note k2 = draw_keeps [OF s2]
      show ?thesis
      proof (cases "draw pil (Text (x1 + 4, y1 - 14) (label det, py_int (detection.confidence det * 100)) (255, 255, 255)) b s2")
        case (Inl e)
        with assms b Inr s2 k1 k2 show ?thesis by (simp add: draw_one_def)
      next
        case s3: (Inr s3)
        note k3 = draw_keeps [OF s3]
        from assms b Inr s2 s3 have "s' = s3" by (simp add: draw_one_def)
        with k1 k2 k3 show ?thesis by simp
      qed
    qed
  qed
qed

lemma draw_loop_keeps:
  "draw_loop pil dets b s = (r, s') \<Longrightarrow> length s' = length s \<and> (\<forall>a. a \<noteq> b \<longrightarrow> s' ! a = s ! a)"
proof (induction dets arbitrary: s)
  case Nil
  then show ?case by simp
next
  case (Cons det dets)
  obtain r1 s1 where one: "draw_one pil det b s = (r1, s1)" by (cases "draw_one pil det b s")
  note k1 = draw_one_keeps [OF one]
  show ?case
  proof (cases r1)
    case None
    with Cons.prems one have "draw_loop pil dets b s1 = (r, s')" by simp
    from Cons.IH [OF this] k1 show ?thesis by simp
  next
    case (Some e)
    with Cons.prems one have "s' = s1" by simp
    with k1 show ?thesis by simp
  qed
qed

text \<open>
  C10: \<open>draw_detections\<close> draws on a copy. Whatever the image, the detections and the
  drawing primitives, the pixels of the input image are the same after the call, every
  object that existed before is unchanged, and the image returned is another object
  than the input.
\<close>

theorem draw_detections_leaves_input:
  assumes "img < length s" and "draw_detections pil img detections s = (r, s')"
  shows "pixels (s' ! img) = pixels (s ! img)
       \<and> take (length s) s' = s
       \<and> (\<forall>annotated. r = Inr annotated \<longrightarrow> annotated \<noteq> img \<and> annotated < length s')"
proof -
  obtain r0 where loop: "draw_loop pil detections (length s) (s @ [s ! img]) = (r0, s')"
    and r: "r = (case r0 of Some e \<Rightarrow> Inl e | None \<Rightarrow> Inr (length s))"
    using assms(2) by (auto simp: draw_detections_def image_copy_def split: prod.splits option.splits)
  from draw_loop_keeps [OF loop]
  have len: "length s' = Suc (length s)"
    and keep: "\<And>a. a \<noteq> length s \<Longrightarrow> s' ! a = (s @ [s ! img]) ! a"
    by simp_all
  have old: "s' ! a = s ! a" if "a < length s" for a
    using keep [of a] that by (simp add: nth_append)
  have "take (length s) s' = s"
    by (rule nth_equalityI) (simp_all add: len old)
  moreover have "annotated \<noteq> img \<and> annotated < length s'" if "r = Inr annotated" for annotated
    using that r assms(1) len by (auto split: option.splits)
  ultimately show ?thesis using old [OF assms(1)] by simp
qed

lemma draw_loop_returns:
  assumes "\<forall>det \<in> set dets. \<exists>x1 y1 x2 y2. bbox det = [x1, y1, x2, y2]"
    and "\<forall>box c w im. \<exists>im'. pil (Rectangle_outline box c w) im = Inr im'"
  shows "\<exists>s'. draw_loop pil dets b s = (None, s')"
  using assms(1)
proof (induction dets arbitrary: s)
  case Nil
  show ?case by simp
next
  case (Cons det dets)
  from Cons.prems obtain x1 y1 x2 y2 where b: "bbox det = [x1, y1, x2, y2]"
    by auto
  from assms(2) obtain im' where "pil (Rectangle_outline [x1, y1, x2, y2] (37, 99, 235) 3) (s ! b) = Inr im'"
    by blast
  then have "\<exists>s1. draw_one pil det b s = (None, s1)"
    by (simp add: draw_one_def b draw_def split: sum.splits)
  then obtain s1 where one: "draw_one pil det b s = (None, s1)" by blast
  from Cons.prems have "\<forall>det \<in> set dets. \<exists>x1 y1 x2 y2. bbox det = [x1, y1, x2, y2]" by simp
  from Cons.IH [OF this, of s1] obtain s' where "draw_loop pil dets b s1 = (None, s')" by blast
  with one show ?case by simp
qed


theorem draw_detections_leaves_input_witness:
  "(0::nat) < length [\<lparr>width = 2, height = 1, pixels = [(0, 0, 0), (9, 9, 9)]\<rparr>]
   \<and> draw_detections (\<lambda>cmd im. Inr (im\<lparr>pixels := map (\<lambda>_. (37, 99, 235)) (pixels im)\<rparr>)) 0
        [\<lparr>label = ''apple'', confidence = 3 / 5, bbox = [0, 0, 1, 1]\<rparr>]
        [\<lparr>width = 2, height = 1, pixels = [(0, 0, 0), (9, 9, 9)]\<rparr>]
      = (Inr 1, [\<lparr>width = 2, height = 1, pixels = [(0, 0, 0), (9, 9, 9)]\<rparr>,
                 \<lparr>width = 2, height = 1, pixels = [(37, 99, 235), (37, 99, 235)]\<rparr>])
   \<and> pixels ([\<lparr>width = 2, height = 1, pixels = [(0, 0, 0), (9, 9, 9)]\<rparr>,
               \<lparr>width = 2, height = 1, pixels = [(37, 99, 235), (37, 99, 235)]\<rparr>] ! 0)
       = pixels ([\<lparr>width = 2, height = 1, pixels = [(0, 0, 0), (9, 9, 9)]\<rparr>] ! 0)"
proof -
  let ?s = "[\<lparr>width = 2, height = 1, pixels = [(0, 0, 0), (9, 9, 9)]\<rparr>] :: store"
  let ?pil = "\<lambda>(cmd :: draw_cmd) im. Inr (im\<lparr>pixels := map (\<lambda>_. (37, 99, 235)) (pixels im)\<rparr>) :: error + image"
  let ?dets = "[\<lparr>label = ''apple'', confidence = 3 / 5, bbox = [0, 0, 1, 1]\<rparr>]"
  let ?s' = "[\<lparr>width = 2, height = 1, pixels = [(0, 0, 0), (9, 9, 9)]\<rparr>,
              \<lparr>width = 2, height = 1, pixels = [(37, 99, 235), (37, 99, 235)]\<rparr>] :: store"
  have a: "0 < length ?s" by simp
  have e: "draw_detections ?pil 0 ?dets ?s = (Inr 1, ?s')" by code_simp
  from draw_detections_leaves_input [OF a e] have "pixels (?s' ! 0) = pixels (?s ! 0)" by blast
  with a e show ?thesis by blast
qed

subsection \<open>The prediction endpoints\<close>

lemma log_request_total: "\<exists>fs'. log_request fmt3f ts result fs = Inr fs'"
  by (simp add: log_request_def split: sum.splits)

lemma process_label:
  "process_bytes_for_single_product decode file_bytes content_type = Inr (img, lbl, c)
     \<Longrightarrow> decode file_bytes = Some img \<and> (lbl, c) = classify_image img
         \<and> (\<exists>ct. content_type = Some ct \<and> ct \<noteq> [] \<and> startswith ct ''image/'')"
  by (auto simp: process_bytes_for_single_product_def load_image_def
      split: option.splits if_splits sum.splits prod.splits)

lemma process_accepts:
  "content_type = Some ct \<Longrightarrow> ct \<noteq> [] \<Longrightarrow> startswith ct ''image/'' \<Longrightarrow> decode file_bytes = Some img
     \<Longrightarrow> process_bytes_for_single_product decode file_bytes content_type
           = Inr (img, fst (classify_image img), snd (classify_image img))"
  by (simp add: process_bytes_for_single_product_def load_image_def split: prod.splits)

lemma process_error_is_ValueError:
  "process_bytes_for_single_product decode file_bytes content_type = Inl e \<Longrightarrow> \<exists>m. e = ValueError m"
  by (auto simp: process_bytes_for_single_product_def load_image_def
      split: option.splits if_splits sum.splits prod.splits)

lemma classify_image_banana: "classify_image img = (''banana'', 95 / 100)"
  by (simp add: classify_image_def predict_def)

lemma predict_html_result_eq:
  "predict_html_result decode fmt3f ts db fs file_bytes content_type
     = predict_api decode fmt3f ts db fs file_bytes content_type"
proof (cases "process_bytes_for_single_product decode file_bytes content_type")
  case (Inl e)
  then show ?thesis by (simp add: predict_html_result_def predict_api_def)
next
  case (Inr t)
  then obtain img lbl c where t: "process_bytes_for_single_product decode file_bytes content_type = Inr (img, lbl, c)"
    by (cases t) auto
  show ?thesis
    by (cases "lookup db lbl") (simp_all add: predict_html_result_def predict_api_def t)
qed


lemma log_request_cases:
  "log_request fmt3f ts result fs
     = Inr (case log_request_try fmt3f ts result fs of Inl e \<Rightarrow> fs | Inr fs' \<Rightarrow> fs')"
  by (simp add: log_request_def split: sum.splits)

lemma predict_api_result:
  assumes "predict_api decode fmt3f ts db fs file_bytes content_type = Inr (r, fs')"
  shows "\<exists>img. decode file_bytes = Some img
           \<and> predicted_label r = fst (classify_image img)
           \<and> confidence r = snd (classify_image img)
           \<and> (found_in_database r \<longleftrightarrow> lookup db (predicted_label r) \<noteq> None)
           \<and> (\<forall>p. lookup db (predicted_label r) = Some p \<longrightarrow>
                  location r = Some \<lparr>loc_aisle = aisle p, loc_section = shelf_section p\<rparr>)
           \<and> (lookup db (predicted_label r) = None \<longrightarrow> location r = None)"
proof (cases "process_bytes_for_single_product decode file_bytes content_type")
  case (Inl e)
  with assms show ?thesis by (simp add: predict_api_def split: error.splits)
next
  case (Inr t)
  then obtain img lbl c where t: "process_bytes_for_single_product decode file_bytes content_type = Inr (img, lbl, c)"
    by (cases t) auto
  from process_label [OF t] have d: "decode file_bytes = Some img" and lc: "(lbl, c) = classify_image img"
    by simp_all
  from lc have l: "fst (classify_image img) = lbl" "snd (classify_image img) = c"
    by (metis fst_conv, metis snd_conv)
  show ?thesis
  proof (cases "lookup db lbl")
    case None
    with assms t have "r = \<lparr>predicted_label = lbl, confidence = c, found_in_database = False,
          message = Some (''No location info found for '' @ [CHR 0x27] @ lbl @ [CHR 0x27] @ ''.''),
          location = None, meta = None\<rparr>"
      by (simp add: predict_api_def log_request_cases Let_def)
    with d l None show ?thesis by simp
  next
    case (Some p)
    with assms t have "r = \<lparr>predicted_label = lbl, confidence = c, found_in_database = True, message = None,
          location = Some \<lparr>loc_aisle = aisle p, loc_section = shelf_section p\<rparr>,
          meta = Some \<lparr>meta_category = category p, meta_price = price p, meta_in_stock = in_stock p\<rparr>\<rparr>"
      by (simp add: predict_api_def log_request_cases Let_def)
    with d l Some show ?thesis by simp
  qed
qed

lemma predict_api_accepts:
  assumes "content_type = Some ct" "ct \<noteq> []" "startswith ct ''image/''" "decode file_bytes = Some img"
  shows "\<exists>r fs'. predict_api decode fmt3f ts db fs file_bytes content_type = Inr (r, fs')"
proof -
  have t: "process_bytes_for_single_product decode file_bytes content_type
           = Inr (img, fst (classify_image img), snd (classify_image img))"
    using assms by (rule process_accepts)
  show ?thesis
    by (simp add: predict_api_def t log_request_cases Let_def split: prod.splits)
qed

lemma predict_api_rejects:
  assumes "content_type = None \<or> content_type = Some [] \<or> (\<exists>ct. content_type = Some ct \<and> \<not> startswith ct ''image/'')"
  shows "predict_api decode fmt3f ts db fs file_bytes content_type
           = Inl (HTTPException 400 ''Please upload an image file.'')"
  using assms by (auto simp: predict_api_def process_bytes_for_single_product_def)

lemma predict_html_eq:
  "predict_html render b64encode decode fmt3f ts db fs file_bytes content_type
     = (case predict_api decode fmt3f ts db fs file_bytes content_type of
          Inl e \<Rightarrow> Inl e
        | Inr (result, fs') \<Rightarrow>
            Inr (render result
                   (Some (''data:''
                          @ (case content_type of
                               None \<Rightarrow> ''image/jpeg''
                             | Some ct \<Rightarrow> if ct = [] then ''image/jpeg'' else ct)
                          @ '';base64,'' @ b64encode file_bytes)), fs'))"
  by (simp add: predict_html_def predict_html_result_eq Let_def split: sum.splits prod.splits)

lemma predict_api_response_ignores_log:
  "map_sum id fst (predict_api decode fmt3f ts db fs file_bytes content_type)
     = map_sum id fst (predict_api decode fmt3f' ts' db fs2 file_bytes content_type)"
proof (cases "process_bytes_for_single_product decode file_bytes content_type")
  case (Inl e)
  then show ?thesis by (simp add: predict_api_def split: error.splits)
next
  case (Inr t)
  then obtain img lbl c where t: "process_bytes_for_single_product decode file_bytes content_type = Inr (img, lbl, c)"
    by (cases t) auto
  show ?thesis
    by (simp add: predict_api_def t log_request_cases Let_def split: prod.splits)
qed


text \<open>
  C4: a request with an image content type and decodable bytes is answered by the
  pipeline: the content type is checked, the image is classified, the label is looked
  up in the table, and the answer is rendered. \<open>found_in_database\<close> is true exactly
  when the lookup of the predicted label returned a record, and then \<open>location\<close>
  carries that record's aisle and section.
\<close>

theorem predict_pipeline:
  assumes "content_type = Some ct" and "ct \<noteq> []" and "startswith ct ''image/''"
    and "decode file_bytes = Some img"
  shows "\<exists>r fs'.
           predict_api decode fmt3f ts db fs file_bytes content_type = Inr (r, fs')
         \<and> predict_html render b64encode decode fmt3f ts db fs file_bytes content_type
             = Inr (render r (Some (''data:'' @ ct @ '';base64,'' @ b64encode file_bytes)), fs')
         \<and> predicted_label r = fst (classify_image img)
         \<and> (found_in_database r \<longleftrightarrow> lookup db (predicted_label r) \<noteq> None)
         \<and> (\<forall>p. lookup db (predicted_label r) = Some p \<longrightarrow>
                location r = Some \<lparr>loc_aisle = aisle p, loc_section = shelf_section p\<rparr>)
         \<and> (lookup db (predicted_label r) = None \<longrightarrow> location r = None)"
proof -
  from assms have "\<exists>r fs'. predict_api decode fmt3f ts db fs file_bytes content_type = Inr (r, fs')"
    by (rule predict_api_accepts)
  then obtain r fs' where
    api: "predict_api decode fmt3f ts db fs file_bytes content_type = Inr (r, fs')"
    by blast
  from predict_api_result [OF api] assms(4) have
    props: "predicted_label r = fst (classify_image img)"
      "found_in_database r \<longleftrightarrow> lookup db (predicted_label r) \<noteq> None"
      "\<forall>p. lookup db (predicted_label r) = Some p \<longrightarrow>
                location r = Some \<lparr>loc_aisle = aisle p, loc_section = shelf_section p\<rparr>"
      "lookup db (predicted_label r) = None \<longrightarrow> location r = None"
    by auto
  have "predict_html render b64encode decode fmt3f ts db fs file_bytes content_type
             = Inr (render r (Some (''data:'' @ ct @ '';base64,'' @ b64encode file_bytes)), fs')"
    unfolding predict_html_eq api using assms(1,2) by simp
  with api props show ?thesis by (intro exI [of _ r] exI [of _ fs'] conjI)
qed

theorem predict_pipeline_witness:
  "startswith ''image/jpeg'' ''image/''
   \<and> predict_api (\<lambda>b. if b = ''JPEGDATA'' then Some \<lparr>width = 640, height = 480, pixels = []\<rparr> else None)
        (\<lambda>c. ''0.950'') ''2024-01-01T00:00:00'' [(''banana'', ''Produce'', ''1'', ''A'', 1 / 4, 1)]
        \<lparr>mkdir_fails = False, open_fails = False, write_fails = True, log_file = []\<rparr>
        ''JPEGDATA'' (Some ''image/jpeg'')
     = Inr (\<lparr>predicted_label = ''banana'', confidence = 95 / 100, found_in_database = True,
             message = None, location = Some \<lparr>loc_aisle = ''1'', loc_section = ''A''\<rparr>,
             meta = Some \<lparr>meta_category = ''Produce'', meta_price = 1 / 4, meta_in_stock = True\<rparr>\<rparr>,
            \<lparr>mkdir_fails = False, open_fails = False, write_fails = True, log_file = []\<rparr>)
   \<and> (\<exists>r fs'.
         predict_api (\<lambda>b. if b = ''JPEGDATA'' then Some \<lparr>width = 640, height = 480, pixels = []\<rparr> else None)
           (\<lambda>c. ''0.950'') ''2024-01-01T00:00:00'' [(''banana'', ''Produce'', ''1'', ''A'', 1 / 4, 1)]
           \<lparr>mkdir_fails = False, open_fails = False, write_fails = True, log_file = []\<rparr>
           ''JPEGDATA'' (Some ''image/jpeg'') = Inr (r, fs')
       \<and> predict_html (\<lambda>r u. predicted_label r) (\<lambda>b. ''SlBFR0RBVEE='')
           (\<lambda>b. if b = ''JPEGDATA'' then Some \<lparr>width = 640, height = 480, pixels = []\<rparr> else None)
           (\<lambda>c. ''0.950'') ''2024-01-01T00:00:00'' [(''banana'', ''Produce'', ''1'', ''A'', 1 / 4, 1)]
           \<lparr>mkdir_fails = False, open_fails = False, write_fails = True, log_file = []\<rparr>
           ''JPEGDATA'' (Some ''image/jpeg'') = Inr (predicted_label r, fs')
       \<and> predicted_label r = fst (classify_image \<lparr>width = 640, height = 480, pixels = []\<rparr>)
       \<and> (found_in_database r
            \<longleftrightarrow> lookup [(''banana'', ''Produce'', ''1'', ''A'', 1 / 4, 1)] (predicted_label r) \<noteq> None)
       \<and> (\<forall>p. lookup [(''banana'', ''Produce'', ''1'', ''A'', 1 / 4, 1)] (predicted_label r) = Some p \<longrightarrow>
              location r = Some \<lparr>loc_aisle = aisle p, loc_section = shelf_section p\<rparr>)
       \<and> (lookup [(''banana'', ''Produce'', ''1'', ''A'', 1 / 4, 1)] (predicted_label r) = None \<longrightarrow>
              location r = None))"
proof -
  let ?d = "\<lambda>b. if b = ''JPEGDATA'' then Some \<lparr>width = 640, height = 480, pixels = []\<rparr> else None"
  let ?db = "[(''banana'', ''Produce'', ''1'', ''A'', 1 / 4, 1)] :: table"
  let ?fs = "\<lparr>mkdir_fails = False, open_fails = False, write_fails = True, log_file = []\<rparr>"
  have st: "startswith ''image/jpeg'' ''image/''" by code_simp
  have ne: "''image/jpeg'' \<noteq> []" by simp
  have dec: "?d ''JPEGDATA'' = Some \<lparr>width = 640, height = 480, pixels = []\<rparr>" by simp
  have api: "predict_api ?d (\<lambda>c. ''0.950'') ''2024-01-01T00:00:00'' ?db ?fs ''JPEGDATA'' (Some ''image/jpeg'')
     = Inr (\<lparr>predicted_label = ''banana'', confidence = 95 / 100, found_in_database = True,
             message = None, location = Some \<lparr>loc_aisle = ''1'', loc_section = ''A''\<rparr>,
             meta = Some \<lparr>meta_category = ''Produce'', meta_price = 1 / 4, meta_in_stock = True\<rparr>\<rparr>, ?fs)"
    by code_simp
  note t = predict_pipeline
      [where content_type = "Some ''image/jpeg''" and ct = "''image/jpeg''" and decode = ?d
         and file_bytes = "''JPEGDATA''" and img = "\<lparr>width = 640, height = 480, pixels = []\<rparr>"
         and fmt3f = "\<lambda>c. ''0.950''" and ts = "''2024-01-01T00:00:00''" and db = ?db and fs = ?fs
         and render = "\<lambda>r u. predicted_label r" and b64encode = "\<lambda>b. ''SlBFR0RBVEE=''",
       OF refl ne st dec]
  from st api t show ?thesis by (intro conjI)
qed

text \<open>
  C5: for every upload the HTML endpoint and the JSON endpoint compute the same result
  dictionary (and leave the same log, and raise the same exception): \<open>predict_html\<close> is
  \<open>predict_api\<close> followed by the rendering of the page.
\<close>

theorem predict_html_renders_predict_api:
  "predict_html_result decode fmt3f ts db fs file_bytes content_type
     = predict_api decode fmt3f ts db fs file_bytes content_type
   \<and> predict_html render b64encode decode fmt3f ts db fs file_bytes content_type
     = (case predict_api decode fmt3f ts db fs file_bytes content_type of
          Inl e \<Rightarrow> Inl e
        | Inr (result, fs') \<Rightarrow>
            Inr (render result
                   (Some (''data:''
                          @ (case content_type of
                               None \<Rightarrow> ''image/jpeg''
                             | Some ct \<Rightarrow> if ct = [] then ''image/jpeg'' else ct)
                          @ '';base64,'' @ b64encode file_bytes)), fs'))"
  using predict_html_result_eq predict_html_eq by (intro conjI)

theorem predict_html_renders_predict_api_witness:
  "predict_html_result (\<lambda>b. if b = ''JPEGDATA'' then Some \<lparr>width = 640, height = 480, pixels = []\<rparr> else None)
        (\<lambda>c. ''0.950'') ''2024-01-01T00:00:00'' [(''apple'', ''Produce'', ''1'', ''B'', 1 / 2, 0)]
        \<lparr>mkdir_fails = False, open_fails = False, write_fails = False, log_file = []\<rparr>
        ''JPEGDATA'' (Some ''image/png'')
     = Inr (\<lparr>predicted_label = ''banana'', confidence = 95 / 100, found_in_database = False,
             message = Some (''No location info found for '' @ [CHR 0x27] @ ''banana'' @ [CHR 0x27] @ ''.''),
             location = None, meta = None\<rparr>,
            \<lparr>mkdir_fails = False, open_fails = False, write_fails = False, log_file = []\<rparr>)"
proof -
  have "predict_api (\<lambda>b. if b = ''JPEGDATA'' then Some \<lparr>width = 640, height = 480, pixels = []\<rparr> else None)
        (\<lambda>c. ''0.950'') ''2024-01-01T00:00:00'' [(''apple'', ''Produce'', ''1'', ''B'', 1 / 2, 0)]
        \<lparr>mkdir_fails = False, open_fails = False, write_fails = False, log_file = []\<rparr>
        ''JPEGDATA'' (Some ''image/png'')
     = Inr (\<lparr>predicted_label = ''banana'', confidence = 95 / 100, found_in_database = False,
             message = Some (''No location info found for '' @ [CHR 0x27] @ ''banana'' @ [CHR 0x27] @ ''.''),
             location = None, meta = None\<rparr>,
            \<lparr>mkdir_fails = False, open_fails = False, write_fails = False, log_file = []\<rparr>)"
    by code_simp
  then show ?thesis
    by (simp only: predict_html_renders_predict_api)
qed


lemma log_request_swallows:
  assumes "mkdir_fails fs \<or> open_fails fs \<or> write_fails fs \<or> location result = None"
  shows "log_request fmt3f ts result fs = Inr fs"
  using assms
  by (auto simp: log_request_def log_request_try_def Let_def split: option.splits sum.splits)

lemma predict_html_response_ignores_log:
  "map_sum id fst (predict_html render b64encode decode fmt3f ts db fs file_bytes content_type)
     = map_sum id fst (predict_html render b64encode decode fmt3f' ts' db fs_other file_bytes content_type)"
proof -
  have "map_sum id fst (predict_html render b64encode decode f s db fs0 file_bytes content_type)
     = map_sum id
         (\<lambda>result. render result
            (Some (''data:''
                   @ (case content_type of
                        None \<Rightarrow> ''image/jpeg''
                      | Some ct \<Rightarrow> if ct = [] then ''image/jpeg'' else ct)
                   @ '';base64,'' @ b64encode file_bytes)))
         (map_sum id fst (predict_api decode f s db fs0 file_bytes content_type))" for f s fs0
    unfolding predict_html_eq
    by (cases "predict_api decode f s db fs0 file_bytes content_type") auto
  then show ?thesis
    using predict_api_response_ignores_log [of decode fmt3f ts db fs file_bytes content_type fmt3f' ts' fs_other]
    by simp
qed

text \<open>
  C7: \<open>_log_request\<close> never raises: whatever fails while the log line is written
  (creating the directory, opening or writing the file, or formatting the line), the
  call returns and leaves the log as it was; and the response of both endpoints is the
  same whatever the file system does to the log.
\<close>

theorem log_request_never_raises:
  "(\<exists>fs'. log_request fmt3f ts result fs = Inr fs')
   \<and> (mkdir_fails fs \<or> open_fails fs \<or> write_fails fs \<or> location result = None
        \<longrightarrow> log_request fmt3f ts result fs = Inr fs)
   \<and> map_sum id fst (predict_api decode fmt3f ts db fs file_bytes content_type)
       = map_sum id fst (predict_api decode fmt3f ts db fs_other file_bytes content_type)
   \<and> map_sum id fst (predict_html render b64encode decode fmt3f ts db fs file_bytes content_type)
       = map_sum id fst (predict_html render b64encode decode fmt3f ts db fs_other file_bytes content_type)"
proof (intro conjI impI)
  show "\<exists>fs'. log_request fmt3f ts result fs = Inr fs'" by (rule log_request_total)
next
  assume "mkdir_fails fs \<or> open_fails fs \<or> write_fails fs \<or> location result = None"
  then show "log_request fmt3f ts result fs = Inr fs" by (rule log_request_swallows)
next
  show "map_sum id fst (predict_api decode fmt3f ts db fs file_bytes content_type)
       = map_sum id fst (predict_api decode fmt3f ts db fs_other file_bytes content_type)"
    by (rule predict_api_response_ignores_log)
next
  show "map_sum id fst (predict_html render b64encode decode fmt3f ts db fs file_bytes content_type)
       = map_sum id fst (predict_html render b64encode decode fmt3f ts db fs_other file_bytes content_type)"
    by (rule predict_html_response_ignores_log)
qed

theorem log_request_never_raises_witness:
  "write_fails \<lparr>mkdir_fails = False, open_fails = False, write_fails = True, log_file = []\<rparr>
   \<and> log_request (\<lambda>c. ''0.950'') ''2024-01-01T00:00:00''
        \<lparr>predicted_label = ''banana'', confidence = 95 / 100, found_in_database = True,
          message = None, location = Some \<lparr>loc_aisle = ''1'', loc_section = ''A''\<rparr>,
          meta = Some \<lparr>meta_category = ''Produce'', meta_price = 1 / 4, meta_in_stock = True\<rparr>\<rparr>
        \<lparr>mkdir_fails = False, open_fails = False, write_fails = True, log_file = []\<rparr>
      = Inr \<lparr>mkdir_fails = False, open_fails = False, write_fails = True, log_file = []\<rparr>
   \<and> map_sum id fst
         (predict_api (\<lambda>b. if b = ''JPEGDATA'' then Some \<lparr>width = 640, height = 480, pixels = []\<rparr> else None)
            (\<lambda>c. ''0.950'') ''2024-01-01T00:00:00'' [(''banana'', ''Produce'', ''1'', ''A'', 1 / 4, 1)]
            \<lparr>mkdir_fails = False, open_fails = False, write_fails = True, log_file = []\<rparr>
            ''JPEGDATA'' (Some ''image/jpeg''))
       = map_sum id fst
         (predict_api (\<lambda>b. if b = ''JPEGDATA'' then Some \<lparr>width = 640, height = 480, pixels = []\<rparr> else None)
            (\<lambda>c. ''0.950'') ''2024-01-01T00:00:00'' [(''banana'', ''Produce'', ''1'', ''A'', 1 / 4, 1)]
            \<lparr>mkdir_fails = False, open_fails = False, write_fails = False, log_file = []\<rparr>
            ''JPEGDATA'' (Some ''image/jpeg''))"
proof -
  let ?bad = "\<lparr>mkdir_fails = False, open_fails = False, write_fails = True, log_file = []\<rparr>"
  let ?ok = "\<lparr>mkdir_fails = False, open_fails = False, write_fails = False, log_file = []\<rparr>"
  let ?res = "\<lparr>predicted_label = ''banana'', confidence = 95 / 100, found_in_database = True,
          message = None, location = Some \<lparr>loc_aisle = ''1'', loc_section = ''A''\<rparr>,
          meta = Some \<lparr>meta_category = ''Produce'', meta_price = 1 / 4, meta_in_stock = True\<rparr>\<rparr>"
  let ?d = "\<lambda>b. if b = ''JPEGDATA'' then Some \<lparr>width = 640, height = 480, pixels = []\<rparr> else None"
  have w: "write_fails ?bad" by simp
  note t = log_request_never_raises
      [where fs = ?bad and fs_other = ?ok and result = ?res and fmt3f = "\<lambda>c. ''0.950''"
         and ts = "''2024-01-01T00:00:00''" and decode = ?d
         and db = "[(''banana'', ''Produce'', ''1'', ''A'', 1 / 4, 1)]"
         and file_bytes = "''JPEGDATA''" and content_type = "Some ''image/jpeg''"]
  from t [THEN conjunct2, THEN conjunct1] w
  have "log_request (\<lambda>c. ''0.950'') ''2024-01-01T00:00:00'' ?res ?bad = Inr ?bad"
    by simp
  moreover from t [THEN conjunct2, THEN conjunct2, THEN conjunct1] have "map_sum id fst
         (predict_api ?d (\<lambda>c. ''0.950'') ''2024-01-01T00:00:00'' [(''banana'', ''Produce'', ''1'', ''A'', 1 / 4, 1)]
            ?bad ''JPEGDATA'' (Some ''image/jpeg''))
       = map_sum id fst
         (predict_api ?d (\<lambda>c. ''0.950'') ''2024-01-01T00:00:00'' [(''banana'', ''Produce'', ''1'', ''A'', 1 / 4, 1)]
            ?ok ''JPEGDATA'' (Some ''image/jpeg''))" .
  ultimately show ?thesis using w by (intro conjI)
qed

text \<open>
  C1, as the code has it: the endpoints \<open>/predict\<close> and \<open>/api/predict\<close> take the label
  from the placeholder classifier of app/model.py, which does not read the image. For
  every upload they accept, the label is \<open>banana\<close> (one of the three coarse labels) and
  the confidence is 0.95.
\<close>

theorem predicted_label_is_banana:
  assumes "predict_api decode fmt3f ts db fs file_bytes content_type = Inr (r, fs')"
  shows "predicted_label r = ''banana''
       \<and> confidence r = 95 / 100
       \<and> predicted_label r \<in> {''banana'', ''apple'', ''neither''}
       \<and> predict_html_result decode fmt3f ts db fs file_bytes content_type = Inr (r, fs')
       \<and> (\<exists>img. decode file_bytes = Some img
              \<and> (predicted_label r, confidence r) = classify_image img)"
proof -
  from predict_api_result [OF assms] obtain img where
    "decode file_bytes = Some img" "predicted_label r = fst (classify_image img)"
    "confidence r = snd (classify_image img)"
    by auto
  then show ?thesis
    using assms by (simp add: classify_image_banana predict_html_result_eq)
qed

theorem predicted_label_is_banana_witness:
  "predict_api (\<lambda>b. if b = ''JPEGDATA'' then Some \<lparr>width = 640, height = 480, pixels = []\<rparr> else None)
        (\<lambda>c. ''0.950'') ''2024-01-01T00:00:00'' [(''apple'', ''Produce'', ''1'', ''B'', 1 / 2, 0)]
        \<lparr>mkdir_fails = False, open_fails = False, write_fails = False, log_file = []\<rparr>
        ''JPEGDATA'' (Some ''image/png'')
     = Inr (\<lparr>predicted_label = ''banana'', confidence = 95 / 100, found_in_database = False,
             message = Some (''No location info found for '' @ [CHR 0x27] @ ''banana'' @ [CHR 0x27] @ ''.''),
             location = None, meta = None\<rparr>,
            \<lparr>mkdir_fails = False, open_fails = False, write_fails = False, log_file = []\<rparr>)
   \<and> predicted_label \<lparr>predicted_label = ''banana'', confidence = 95 / 100, found_in_database = False,
             message = Some (''No location info found for '' @ [CHR 0x27] @ ''banana'' @ [CHR 0x27] @ ''.''),
             location = None, meta = None\<rparr> = ''banana''"
proof -
  have e: "predict_api (\<lambda>b. if b = ''JPEGDATA'' then Some \<lparr>width = 640, height = 480, pixels = []\<rparr> else None)
        (\<lambda>c. ''0.950'') ''2024-01-01T00:00:00'' [(''apple'', ''Produce'', ''1'', ''B'', 1 / 2, 0)]
        \<lparr>mkdir_fails = False, open_fails = False, write_fails = False, log_file = []\<rparr>
        ''JPEGDATA'' (Some ''image/png'')
     = Inr (\<lparr>predicted_label = ''banana'', confidence = 95 / 100, found_in_database = False,
             message = Some (''No location info found for '' @ [CHR 0x27] @ ''banana'' @ [CHR 0x27] @ ''.''),
             location = None, meta = None\<rparr>,
            \<lparr>mkdir_fails = False, open_fails = False, write_fails = False, log_file = []\<rparr>)"
    by code_simp
  from predicted_label_is_banana [OF e, THEN conjunct1] have
    "predicted_label \<lparr>predicted_label = ''banana'', confidence = 95 / 100, found_in_database = False,
             message = Some (''No location info found for '' @ [CHR 0x27] @ ''banana'' @ [CHR 0x27] @ ''.''),
             location = None, meta = None\<rparr> = ''banana''" .
  with e show ?thesis by (intro conjI)
qed

text \<open>
  C1 as it was stated fails: no upload that \<open>/api/predict\<close> accepts is answered with
  the label \<open>apple\<close> or \<open>neither\<close>.
\<close>

theorem predicted_label_apple_counterexample:
  "\<not> (\<exists>decode fmt3f ts db fs file_bytes content_type r fs'.
         predict_api decode fmt3f ts db fs file_bytes content_type = Inr (r, fs')
         \<and> (predicted_label r = ''apple'' \<or> predicted_label r = ''neither''))"
proof
  assume "\<exists>decode fmt3f ts db fs file_bytes content_type r fs'.
         predict_api decode fmt3f ts db fs file_bytes content_type = Inr (r, fs')
         \<and> (predicted_label r = ''apple'' \<or> predicted_label r = ''neither'')"
  then obtain decode fmt3f ts db fs file_bytes content_type r fs' where
    e: "predict_api decode fmt3f ts db fs file_bytes content_type = Inr (r, fs')"
    and l: "predicted_label r = ''apple'' \<or> predicted_label r = ''neither''"
    by (elim exE conjE)
  from predict_api_result [OF e] obtain img where "predicted_label r = fst (classify_image img)"
    by auto
  then have "predicted_label r = ''banana''" by (simp add: classify_image_banana)
  with l show False by simp
qed

end
